theory Spec2Isabelle
  imports Complex_Main
begin

section \<open>Numbers, vectors and matrices\<close>

text \<open>
  A JavaScript \<^verbatim>\<open>number\<close> is modelled by a real, and the arithmetic of the rendering
  library (three.js) by the exact operations, so \<^verbatim>\<open>Math.cos(Math.PI / 2)\<close> is \<open>0\<close>
  here while it is about \<^verbatim>\<open>6e-17\<close> in double precision. What this means for the two
  kinds of values the component keeps:

  \<^item> Positions. Every position the component stores has gone through
    \<^verbatim>\<open>Math.round\<close>, which absorbs the rounding errors of the renderer, so the stored
    doubles are the integers computed here.

  \<^item> Orientations. The quaternion of a mesh is computed by the renderer in double
    precision and the component never rounds it. The matrix kept here is the exact
    rotation that the stored quaternion approximates; the two differ by the rounding
    errors of every turn made so far. The statements below use an orientation only
    through the solved check, whose tolerance of 0.1 is far above those errors; none
    of them says that a stored orientation equals an exact rotation.

  \<^verbatim>\<open>Math.round\<close> rounds half up, which is \<^const>\<open>round\<close> of the library:
  \<open>round x = \<lfloor>x + 1/2\<rfloor>\<close>.
\<close>

type_synonym Vector3Tuple = "real \<times> real \<times> real"

type_synonym Matrix3 = "Vector3Tuple \<times> Vector3Tuple \<times> Vector3Tuple"

text \<open>\<^verbatim>\<open>const round = (v: number) => Math.round(v)\<close>\<close>

definition roundn :: "real \<Rightarrow> real" where
  "roundn v = of_int (round v)"

fun vnth :: "Vector3Tuple \<Rightarrow> nat \<Rightarrow> real" where
  "vnth (x, y, z) k = (if k = 0 then x else if k = 1 then y else z)"

fun vset :: "Vector3Tuple \<Rightarrow> nat \<Rightarrow> real \<Rightarrow> Vector3Tuple" where
  "vset (x, y, z) k v = (if k = 0 then (v, y, z) else if k = 1 then (x, v, z) else (x, y, v))"

fun vsub :: "Vector3Tuple \<Rightarrow> Vector3Tuple \<Rightarrow> Vector3Tuple" where
  "vsub (a, b, c) (x, y, z) = (a - x, b - y, c - z)"

fun vlength :: "Vector3Tuple \<Rightarrow> real" where
  "vlength (x, y, z) = sqrt (x * x + y * y + z * z)"

fun vdot :: "Vector3Tuple \<Rightarrow> Vector3Tuple \<Rightarrow> real" where
  "vdot (a, b, c) (x, y, z) = a * x + b * y + c * z"

fun roundVec :: "Vector3Tuple \<Rightarrow> Vector3Tuple" where
  "roundVec (x, y, z) = (roundn x, roundn y, roundn z)"

text \<open>A matrix is the triple of its rows.\<close>

fun applyMatrix3 :: "Matrix3 \<Rightarrow> Vector3Tuple \<Rightarrow> Vector3Tuple" where
  "applyMatrix3 (r1, r2, r3) v = (vdot r1 v, vdot r2 v, vdot r3 v)"

fun transpose3 :: "Matrix3 \<Rightarrow> Matrix3" where
  "transpose3 ((a, b, c), (d, e, f), (g, h, i)) = ((a, d, g), (b, e, h), (c, f, i))"

fun multiply3 :: "Matrix3 \<Rightarrow> Matrix3 \<Rightarrow> Matrix3" where
  "multiply3 (r1, r2, r3) m =
     (applyMatrix3 (transpose3 m) r1, applyMatrix3 (transpose3 m) r2, applyMatrix3 (transpose3 m) r3)"

definition identity3 :: Matrix3 where
  "identity3 = ((1, 0, 0), (0, 1, 0), (0, 0, 1))"

text \<open>
  three.js, \<^verbatim>\<open>Matrix4.makeRotationFromEuler\<close> for the default order XYZ: the rotation
  block of the matrix of an object whose \<^verbatim>\<open>rotation\<close> is the Euler triple
  \<open>(x, y, z)\<close>, with the exact cosine and sine. The renderer's matrix has the
  double-precision values of \<^verbatim>\<open>Math.cos\<close> and \<^verbatim>\<open>Math.sin\<close> instead, which are within
  \<^verbatim>\<open>1e-15\<close> of these.
\<close>

fun makeRotationFromEuler :: "Vector3Tuple \<Rightarrow> Matrix3" where
  "makeRotationFromEuler (x, y, z) =
     (let a = cos x; b = sin x; c = cos y; d = sin y; e = cos z; f = sin z in
      ((c * e, - c * f, d),
       (a * f + b * e * d, a * e - b * f * d, - b * c),
       (b * f - a * e * d, b * e + a * f * d, a * c)))"

section \<open>Data model (types.ts, Cube3D.tsx)\<close>

datatype GameState = IDLE | PLAYING | SOLVED

text \<open>\<^verbatim>\<open>axis: 'x' | 'y' | 'z'\<close> and \<^verbatim>\<open>direction: 1 | -1\<close>\<close>

datatype axis = Xaxis | Yaxis | Zaxis

datatype direction = Plus1 | Minus1

fun dirnum :: "direction \<Rightarrow> real" where
  "dirnum Plus1 = 1"
| "dirnum Minus1 = - 1"

text \<open>\<^verbatim>\<open>axis === 'x' ? 0 : axis === 'y' ? 1 : 2\<close>\<close>

fun axisIndex :: "axis \<Rightarrow> nat" where
  "axisIndex Xaxis = 0"
| "axisIndex Yaxis = 1"
| "axisIndex Zaxis = 2"

record Move =
  axis :: axis
  slice :: int
  direction :: direction

definition CUBE_COLORS_U :: string where "CUBE_COLORS_U = ''#ffffff''"
definition CUBE_COLORS_D :: string where "CUBE_COLORS_D = ''#ffd500''"
definition CUBE_COLORS_F :: string where "CUBE_COLORS_F = ''#00d936''"
definition CUBE_COLORS_B :: string where "CUBE_COLORS_B = ''#0051ff''"
definition CUBE_COLORS_L :: string where "CUBE_COLORS_L = ''#ff5900''"
definition CUBE_COLORS_R :: string where "CUBE_COLORS_R = ''#ff0055''"
definition CUBE_COLORS_CORE :: string where "CUBE_COLORS_CORE = ''#1a1a1a''"

record ColorMap =
  right :: string
  left :: string
  up :: string
  down :: string
  front :: string
  "back" :: string

text \<open>
  A logical cubelet. The field \<open>rotation\<close> is the \<^verbatim>\<open>new THREE.Quaternion()\<close> of the
  initial state, \<open>(x, y, z, w) = (0, 0, 0, 1)\<close>; no code writes it afterwards.
\<close>

record Cubelet =
  idn :: nat
  initialPos :: Vector3Tuple
  currentPos :: Vector3Tuple
  rotation :: "real \<times> real \<times> real \<times> real"
  colorMap :: ColorMap

text \<open>
  A mesh of the scene: the \<^verbatim>\<open>THREE.Object3D\<close> behind an entry of
  \<^verbatim>\<open>cubieRefs\<close>. Its \<open>quaternion\<close> is held as the rotation matrix it denotes
  (the rotation block of the object's local matrix), which is all that
  \<^verbatim>\<open>attach\<close> and \<^verbatim>\<open>applyQuaternion\<close> depend on. \<open>parent\<close> is the node it hangs
  under: the cube's group or the pivot.
\<close>

datatype Parent = GroupP | PivotP

record Object3D =
  position :: Vector3Tuple
  quaternion :: Matrix3
  parent :: Parent

record InteractRef =
  startFaceNormal :: Vector3Tuple
  startPoint :: Vector3Tuple
  intersectedCubieId :: int
  isDragging :: bool

text \<open>
  The component \<^verbatim>\<open>Cube3D\<close>: its props (\<open>gameState\<close>, \<open>scramble\<close>; the calls of the
  prop \<^verbatim>\<open>onSolve\<close> are counted in \<open>onSolveCalls\<close>), its React state and its refs.
  \<open>groupRef\<close> says whether the group is mounted; \<open>pivotRef\<close> is the Euler rotation of
  the pivot when it is mounted (its position is always the origin); \<open>cubieRefs\<close> maps a
  cubelet id to its mesh.
\<close>

record Cube3D =
  gameState :: GameState
  scramble :: bool
  onSolveCalls :: nat
  cubelets :: "Cubelet list"
  isAnimating :: bool
  groupRef :: bool
  pivotRef :: "Vector3Tuple option"
  cubieRefs :: "nat \<rightharpoonup> Object3D"
  interactRef :: InteractRef

text \<open>
  What the closure of \<^verbatim>\<open>animate\<close> holds while a turn is in flight; \<open>anim_gameState\<close> is
  the \<^verbatim>\<open>gameState\<close> of the render whose \<^verbatim>\<open>rotateSlice\<close> started the turn, which is the
  one its \<^verbatim>\<open>checkSolved\<close> and \<^verbatim>\<open>onSolve\<close> read.
\<close>

record Animation =
  anim_axis :: axis
  anim_targetRot :: real
  anim_activeCubies :: "nat list"
  anim_gameState :: GameState

record PointerEvent =
  point :: Vector3Tuple
  worldNormal :: "Vector3Tuple option"
  objectIndex :: int

section \<open>Initial state\<close>

text \<open>
  The three nested loops of \<^verbatim>\<open>initialCubelets\<close> push the positions in this order and
  number them with \<^verbatim>\<open>id++\<close>.
\<close>

definition initialPositions :: "Vector3Tuple list" where
  "initialPositions =
     concat (map (\<lambda>x. concat (map (\<lambda>y. map (\<lambda>z. (x, y, z)) [- 1, 0, 1]) [- 1, 0, 1])) [- 1, 0, 1])"

fun makeCubelet :: "nat \<times> Vector3Tuple \<Rightarrow> Cubelet" where
  "makeCubelet (n, (x, y, z)) =
     \<lparr> idn = n,
       initialPos = (x, y, z),
       currentPos = (x, y, z),
       rotation = (0, 0, 0, 1),
       colorMap = \<lparr>
         right = (if x = 1 then CUBE_COLORS_R else CUBE_COLORS_CORE),
         left = (if x = - 1 then CUBE_COLORS_L else CUBE_COLORS_CORE),
         up = (if y = 1 then CUBE_COLORS_U else CUBE_COLORS_CORE),
         down = (if y = - 1 then CUBE_COLORS_D else CUBE_COLORS_CORE),
         front = (if z = 1 then CUBE_COLORS_F else CUBE_COLORS_CORE),
         back = (if z = - 1 then CUBE_COLORS_B else CUBE_COLORS_CORE) \<rparr> \<rparr>"

definition initialCubelets :: "Cubelet list" where
  "initialCubelets = map makeCubelet (enumerate 0 initialPositions)"

text \<open>
  \<^verbatim>\<open>Cubie\<close> mounts one mesh per cubelet at \<^verbatim>\<open>position={data.initialPos}\<close>, with no
  rotation, under the group, and stores it at \<^verbatim>\<open>cubieRefs.current[c.id]\<close>.
\<close>

definition mountCubie :: "Cubelet \<Rightarrow> nat \<times> Object3D" where
  "mountCubie c = (idn c, \<lparr> position = initialPos c, quaternion = identity3, parent = GroupP \<rparr>)"

definition initialState :: Cube3D where
  "initialState =
     \<lparr> gameState = IDLE,
       scramble = False,
       onSolveCalls = 0,
       cubelets = initialCubelets,
       isAnimating = False,
       groupRef = True,
       pivotRef = Some (0, 0, 0),
       cubieRefs = map_of (map mountCubie initialCubelets),
       interactRef = \<lparr> startFaceNormal = (0, 0, 0), startPoint = (0, 0, 0),
                       intersectedCubieId = - 1, isDragging = False \<rparr> \<rparr>"

section \<open>The solved check\<close>

text \<open>\<^verbatim>\<open>v.applyQuaternion(q)\<close>: the rotation that \<open>q\<close> denotes, applied to \<open>v\<close>.\<close>

definition applyQuaternion :: "Vector3Tuple \<Rightarrow> Matrix3 \<Rightarrow> Vector3Tuple" where
  "applyQuaternion v q = applyMatrix3 q v"

text \<open>
  The loop of \<^verbatim>\<open>checkSolved\<close>, from index \<open>i\<close>: the value of \<^verbatim>\<open>solved\<close> when the loop
  ends. \<open>None\<close> is the TypeError of reading \<^verbatim>\<open>cubelets[i].id\<close> beyond the array.
\<close>

function solvedLoop :: "Cubelet list \<Rightarrow> (nat \<rightharpoonup> Object3D) \<Rightarrow> nat \<Rightarrow> bool option" where
  "solvedLoop cs refs i =
     (if 27 \<le> i then Some True
      else if length cs \<le> i then None
      else
        (let c = cs ! i in
         case refs (idn c) of
           None \<Rightarrow> solvedLoop cs refs (i + 1)
         | Some ref \<Rightarrow>
             if roundn (vnth (currentPos c) 0) \<noteq> vnth (initialPos c) 0 \<or>
                roundn (vnth (currentPos c) 1) \<noteq> vnth (initialPos c) 1 \<or>
                roundn (vnth (currentPos c) 2) \<noteq> vnth (initialPos c) 2
             then Some False
             else if \<bar>vnth (applyQuaternion (0, 1, 0) (quaternion ref)) 1 - 1\<bar> > 0.1
             then Some False
             else if \<bar>vnth (applyQuaternion (0, 0, 1) (quaternion ref)) 2 - 1\<bar> > 0.1
             then Some False
             else solvedLoop cs refs (i + 1)))"
  by pat_completeness auto
termination
  by (relation "measure (\<lambda>(cs, refs, i). 27 - i)") auto

text \<open>
  \<^verbatim>\<open>checkSolved\<close>, \<^verbatim>\<open>rotateSlice\<close> and App.tsx's \<^verbatim>\<open>handleSolve\<close> are closures
  made by a render: the \<^verbatim>\<open>gameState\<close> they read is the one of that render, the first
  argument \<open>g\<close> below, and not the game state at the moment they run. The array
  \<^verbatim>\<open>cubelets\<close> and the refs are the same objects in every render, so they are read
  from the current state.

  App.tsx, \<^verbatim>\<open>handleSolve\<close>, as far as the cube is concerned: the game leaves PLAYING.
  \<^verbatim>\<open>onSolve\<close> is the \<^verbatim>\<open>handleSolve\<close> of the same render.
\<close>

definition handleSolve :: "GameState \<Rightarrow> Cube3D \<Rightarrow> Cube3D" where
  "handleSolve g st = (if g \<noteq> PLAYING then st else st\<lparr>gameState := SOLVED\<rparr>)"

definition onSolve :: "GameState \<Rightarrow> Cube3D \<Rightarrow> Cube3D" where
  "onSolve g st = handleSolve g (st\<lparr>onSolveCalls := onSolveCalls st + 1\<rparr>)"

definition checkSolved :: "GameState \<Rightarrow> Cube3D \<Rightarrow> Cube3D" where
  "checkSolved g st =
     (if g \<noteq> PLAYING then st
      else if solvedLoop (cubelets st) (cubieRefs st) 0 = Some True then onSolve g st
      else st)"

text \<open>
  constants.ts, \<^verbatim>\<open>isSolved\<close>: a helper on the typed data of types.ts, where
  \<^verbatim>\<open>rotation\<close> is a triple of Euler angles. Nothing in the application calls it; the
  component decides with \<^verbatim>\<open>checkSolved\<close> above. \<open>jsRem\<close> is the remainder \<^verbatim>\<open>%\<close> of
  JavaScript on integers, whose sign is that of the dividend.
\<close>

record CubeletData =
  data_id :: nat
  data_initialPos :: Vector3Tuple
  data_currentPos :: Vector3Tuple
  data_rotation :: Vector3Tuple

definition jsRem :: "int \<Rightarrow> int \<Rightarrow> int" where
  "jsRem a b = sgn a * (\<bar>a\<bar> mod \<bar>b\<bar>)"

definition isSolved :: "CubeletData list \<Rightarrow> bool" where
  "isSolved cs =
     list_all (\<lambda>c.
        let rx = jsRem (round (vnth (data_rotation c) 0 / (pi / 2))) 4;
            ry = jsRem (round (vnth (data_rotation c) 1 / (pi / 2))) 4;
            rz = jsRem (round (vnth (data_rotation c) 2 / (pi / 2))) 4;
            isRotZero = (rx = 0 \<and> ry = 0 \<and> rz = 0);
            matchesPos =
              (round (vnth (data_currentPos c) 0) = round (vnth (data_initialPos c) 0) \<and>
               round (vnth (data_currentPos c) 1) = round (vnth (data_initialPos c) 1) \<and>
               round (vnth (data_currentPos c) 2) = round (vnth (data_initialPos c) 2))
        in isRotZero \<and> matchesPos) cs"

section \<open>Executing a rotation\<close>

text \<open>
  \<^verbatim>\<open>pivotRef.current.attach(mesh)\<close> right after the pivot was reset to the identity:
  the mesh keeps its local transform and changes parent.
\<close>

definition attachToPivot :: "nat \<Rightarrow> Cube3D \<Rightarrow> Cube3D" where
  "attachToPivot i st =
     (let c = cubelets st ! i in
      case cubieRefs st (idn c) of
        None \<Rightarrow> st
      | Some mesh \<Rightarrow> st\<lparr>cubieRefs := (cubieRefs st)(idn c \<mapsto> mesh\<lparr>parent := PivotP\<rparr>)\<rparr>)"

text \<open>
  \<^verbatim>\<open>groupRef.current.attach(mesh)\<close> keeps the world transform: a mesh under the pivot,
  whose matrix is \<open>p\<close>, gets \<open>p\<close> applied to its local transform; a mesh that is already
  under the group keeps it.
\<close>

definition attachToGroup :: "Matrix3 \<Rightarrow> Object3D \<Rightarrow> Object3D" where
  "attachToGroup p mesh =
     (case parent mesh of
        GroupP \<Rightarrow> mesh
      | PivotP \<Rightarrow> \<lparr> position = applyMatrix3 p (position mesh),
                   quaternion = multiply3 p (quaternion mesh),
                   parent = GroupP \<rparr>)"

text \<open>
  The body of the final \<^verbatim>\<open>activeCubies.forEach\<close>, for the cubelet object at index \<open>i\<close>
  of \<^verbatim>\<open>cubelets\<close>: reattach, round the mesh position, copy it to \<^verbatim>\<open>currentPos\<close>.
\<close>

definition detachCubie :: "Matrix3 \<Rightarrow> nat \<Rightarrow> Cube3D \<Rightarrow> Cube3D" where
  "detachCubie p i st =
     (let c = cubelets st ! i in
      case cubieRefs st (idn c) of
        None \<Rightarrow> st
      | Some mesh \<Rightarrow>
          (let mesh1 = attachToGroup p mesh;
               mesh2 = mesh1\<lparr>position := roundVec (position mesh1)\<rparr>
           in st\<lparr>cubieRefs := (cubieRefs st)(idn c \<mapsto> mesh2),
                 cubelets := (cubelets st)[i := c\<lparr>currentPos := position mesh2\<rparr>]\<rparr>))"

text \<open>
  \<^verbatim>\<open>cubelets.filter(c => round(c.currentPos[...]) === sliceIndex)\<close>: the selected
  cubelet objects, named by their index in \<^verbatim>\<open>cubelets\<close>.
\<close>

definition activeCubies :: "Cubelet list \<Rightarrow> axis \<Rightarrow> int \<Rightarrow> nat list" where
  "activeCubies cs ax sliceIndex =
     filter (\<lambda>i. round (vnth (currentPos (cs ! i)) (axisIndex ax)) = sliceIndex) [0..<length cs]"

definition targetRot :: "direction \<Rightarrow> real" where
  "targetRot dir = (pi / 2) * dirnum dir * - 1"

text \<open>
  \<^verbatim>\<open>rotateSlice\<close> up to the start of the animation, for the closure of a render whose
  game state was \<open>g\<close>. Without the pivot or the group it returns at once; it does not
  look at \<^verbatim>\<open>isAnimating\<close>. The closure \<^verbatim>\<open>animate\<close> keeps the \<^verbatim>\<open>checkSolved\<close> of that
  render.
\<close>

definition rotateSlice_begin ::
  "GameState \<Rightarrow> Cube3D \<Rightarrow> axis \<Rightarrow> int \<Rightarrow> direction \<Rightarrow> Cube3D \<times> Animation option" where
  "rotateSlice_begin g st ax sliceIndex dir =
     (if pivotRef st = None \<or> \<not> groupRef st then (st, None)
      else
        (let st1 = st\<lparr>isAnimating := True\<rparr>;
             active = activeCubies (cubelets st1) ax sliceIndex;
             st2 = st1\<lparr>pivotRef := Some (0, 0, 0)\<rparr>;
             st3 = fold attachToPivot active st2
         in (st3, Some \<lparr> anim_axis = ax, anim_targetRot = targetRot dir,
                         anim_activeCubies = active, anim_gameState = g \<rparr>)))"

text \<open>
  The last frame of \<^verbatim>\<open>animate\<close> (\<open>progress = 1\<close>): the pivot gets the full angle, the
  active cubelets are detached and their logical position updated, the flag is cleared
  and the solved check that the closure kept runs: it reads the game state of the
  render that started the turn, whatever the props have become while the turn was in
  flight. The earlier frames only set the pivot's angle. The
  non-null assertions throw when a ref is gone: on the pivot before anything is
  written, on the group at the first active cubelet that has a mesh.
\<close>

definition rotateSlice_finish :: "Cube3D \<Rightarrow> Animation \<Rightarrow> Cube3D" where
  "rotateSlice_finish st an =
     (case pivotRef st of
        None \<Rightarrow> st
      | Some rot \<Rightarrow>
          (let rot1 = vset rot (axisIndex (anim_axis an)) (anim_targetRot an);
               st1 = st\<lparr>pivotRef := Some rot1\<rparr>
           in if \<not> groupRef st \<and>
                 list_ex (\<lambda>i. cubieRefs st (idn (cubelets st ! i)) \<noteq> None) (anim_activeCubies an)
              then st1
              else
                (let st2 = fold (detachCubie (makeRotationFromEuler rot1)) (anim_activeCubies an) st1;
                     st3 = st2\<lparr>isAnimating := False\<rparr>
                 in checkSolved (anim_gameState an) st3)))"

text \<open>
  A turn run to the resolution of its promise with nothing happening in between, for
  the closure of a render whose game state was \<open>g\<close>.
\<close>

definition rotateSliceWith :: "GameState \<Rightarrow> Cube3D \<Rightarrow> axis \<Rightarrow> int \<Rightarrow> direction \<Rightarrow> Cube3D" where
  "rotateSliceWith g st ax sliceIndex dir =
     (case rotateSlice_begin g st ax sliceIndex dir of
        (st1, None) \<Rightarrow> st1
      | (st1, Some an) \<Rightarrow> rotateSlice_finish st1 an)"

text \<open>A committed move: \<^verbatim>\<open>rotateSlice\<close> of the current render, run to the end.\<close>

definition rotateSlice :: "Cube3D \<Rightarrow> axis \<Rightarrow> int \<Rightarrow> direction \<Rightarrow> Cube3D" where
  "rotateSlice st ax sliceIndex dir = rotateSliceWith (gameState st) st ax sliceIndex dir"

definition commit :: "Move \<Rightarrow> Cube3D \<Rightarrow> Cube3D" where
  "commit m st = rotateSlice st (axis m) (slice m) (direction m)"

section \<open>Scramble\<close>

text \<open>
  \<^verbatim>\<open>xs[Math.floor(Math.random() * n)]\<close>, for the random number \<open>r\<close>, which
  \<^verbatim>\<open>Math.random\<close> takes from \<open>[0, 1)\<close>.
\<close>

definition pick :: "'a list \<Rightarrow> real \<Rightarrow> 'a" where
  "pick xs r = xs ! nat \<lfloor>r * real (length xs)\<rfloor>"

text \<open>
  \<^verbatim>\<open>runScramble\<close> from iteration \<open>i\<close>; \<open>rnd k\<close> is the result of the \<open>k\<close>-th call of
  \<^verbatim>\<open>Math.random\<close>. Each turn is awaited before the next one starts. The effect
  depends on \<^verbatim>\<open>[scramble]\<close> only, so all twenty turns use the \<^verbatim>\<open>rotateSlice\<close> of the
  render in which the effect ran, whose game state is \<open>g\<close>. The props may change
  while a scramble runs (App.tsx sets PLAYING two seconds after the start): \<open>gs i\<close>
  is the game state that the props hold when turn \<open>i\<close> starts.
\<close>

function runScramble ::
  "GameState \<Rightarrow> (nat \<Rightarrow> GameState) \<Rightarrow> (nat \<Rightarrow> real) \<Rightarrow> nat \<Rightarrow> Cube3D \<Rightarrow> Cube3D" where
  "runScramble g gs rnd i st =
     (if i < 20 then
        (let ax = pick [Xaxis, Yaxis, Zaxis] (rnd (3 * i));
             sl = pick [- 1, 0, 1] (rnd (3 * i + 1));
             dir = pick [Plus1, Minus1] (rnd (3 * i + 2))
         in runScramble g gs rnd (i + 1) (rotateSliceWith g (st\<lparr>gameState := gs i\<rparr>) ax sl dir))
      else st)"
  by pat_completeness auto
termination
  by (relation "measure (\<lambda>(g, gs, rnd, i, st). 20 - i)") auto

text \<open>The effect on \<^verbatim>\<open>[scramble]\<close>, run by the render of the state \<open>st\<close>.\<close>

definition scrambleEffect :: "(nat \<Rightarrow> GameState) \<Rightarrow> (nat \<Rightarrow> real) \<Rightarrow> Cube3D \<Rightarrow> Cube3D" where
  "scrambleEffect gs rnd st =
     (if scramble st \<and> \<not> isAnimating st then runScramble (gameState st) gs rnd 0 st else st)"

text \<open>App.tsx, \<^verbatim>\<open>startSequence\<close>: the props it sets at once.\<close>

definition startSequence :: "Cube3D \<Rightarrow> Cube3D" where
  "startSequence st = st\<lparr>scramble := True, gameState := IDLE\<rparr>"

text \<open>App.tsx, \<^verbatim>\<open>handleReset\<close>, as far as the cube is concerned.\<close>

definition handleReset :: "Cube3D \<Rightarrow> Cube3D" where
  "handleReset st = st\<lparr>gameState := IDLE\<rparr>"

section \<open>Interaction handlers\<close>

text \<open>
  The snapping of \<^verbatim>\<open>handlePointerDown\<close>; \<open>n\<close> is the face normal in world space,
  normalised, as three.js computes it from the hit.
\<close>

fun snapNormal :: "Vector3Tuple \<Rightarrow> Vector3Tuple" where
  "snapNormal (x, y, z) =
     (let maxComp = max (max \<bar>x\<bar> \<bar>y\<bar>) \<bar>z\<bar> in
      if \<bar>x\<bar> = maxComp then (sgn x, 0, 0)
      else if \<bar>y\<bar> = maxComp then (0, sgn y, 0)
      else (0, 0, sgn z))"

definition handlePointerDown :: "Cube3D \<Rightarrow> PointerEvent \<Rightarrow> Cube3D" where
  "handlePointerDown st e =
     (if gameState st \<noteq> PLAYING \<or> isAnimating st then st
      else case worldNormal e of
        None \<Rightarrow> st
      | Some n \<Rightarrow>
          st\<lparr>interactRef :=
               \<lparr> startFaceNormal = snapNormal n, startPoint = point e,
                 intersectedCubieId = objectIndex e, isDragging = True \<rparr>\<rparr>)"

definition handlePointerUp :: "Cube3D \<Rightarrow> Cube3D" where
  "handlePointerUp st =
     (if \<not> isDragging (interactRef st) then st
      else st\<lparr>interactRef := (interactRef st)\<lparr>isDragging := False\<rparr>\<rparr>)"

text \<open>
  The resolution of a drag in \<^verbatim>\<open>handlePointerMove\<close>: from the snapped normal, the
  logical position of the pressed cubelet and the drag vector to the move.
\<close>

definition resolveMove :: "Vector3Tuple \<Rightarrow> Vector3Tuple \<Rightarrow> Vector3Tuple \<Rightarrow> Move" where
  "resolveMove normal cubiePos moveVector =
     (case normal of (nx, ny, nz) \<Rightarrow>
      case moveVector of (mx, my, mz) \<Rightarrow>
      let absX = \<bar>mx\<bar>; absY = \<bar>my\<bar>; absZ = \<bar>mz\<bar> in
      if \<bar>nx\<bar> > 0.5 then
        (if absY > absZ
         then \<lparr> axis = Zaxis, slice = round (vnth cubiePos 2),
                direction = (if my * nx > 0 then Minus1 else Plus1) \<rparr>
         else \<lparr> axis = Yaxis, slice = round (vnth cubiePos 1),
                direction = (if mz * nx > 0 then Plus1 else Minus1) \<rparr>)
      else if \<bar>ny\<bar> > 0.5 then
        (if absX > absZ
         then \<lparr> axis = Zaxis, slice = round (vnth cubiePos 2),
                direction = (if mx * ny > 0 then Plus1 else Minus1) \<rparr>
         else \<lparr> axis = Xaxis, slice = round (vnth cubiePos 0),
                direction = (if mz * ny > 0 then Minus1 else Plus1) \<rparr>)
      else
        (if absX > absY
         then \<lparr> axis = Yaxis, slice = round (vnth cubiePos 1),
                direction = (if mx * nz > 0 then Minus1 else Plus1) \<rparr>
         else \<lparr> axis = Xaxis, slice = round (vnth cubiePos 0),
                direction = (if my * nz > 0 then Plus1 else Minus1) \<rparr>))"

text \<open>
  \<^verbatim>\<open>handlePointerMove\<close>: the new state and the turn it puts in flight, if any. The
  handler is the one of the current render, and so is the \<^verbatim>\<open>rotateSlice\<close> it calls.
  Reading \<^verbatim>\<open>currentPos\<close> of a cubelet beyond the array throws after the drag was
  latched.
\<close>

definition handlePointerMove :: "Cube3D \<Rightarrow> PointerEvent \<Rightarrow> Cube3D \<times> Animation option" where
  "handlePointerMove st e =
     (let ir = interactRef st in
      if \<not> isDragging ir \<or> isAnimating st \<or> intersectedCubieId ir = - 1 then (st, None)
      else
        (let moveVector = vsub (point e) (startPoint ir) in
         if vlength moveVector < 0.25 then (st, None)
         else
           (let st1 = st\<lparr>interactRef := ir\<lparr>isDragging := False\<rparr>\<rparr> in
            if intersectedCubieId ir < 0 \<or> int (length (cubelets st)) \<le> intersectedCubieId ir
            then (st1, None)
            else
              (let cubie = cubelets st ! nat (intersectedCubieId ir);
                   m = resolveMove (startFaceNormal ir) (currentPos cubie) moveVector
               in rotateSlice_begin (gameState st) st1 (axis m) (slice m) (direction m)))))"

declare runScramble.simps [simp del]
declare solvedLoop.simps [simp del]

section \<open>Notions used in the statements\<close>

text \<open>
  The matrix of the pivot at the end of a turn: the pivot was reset to no rotation and
  then given the angle \<open>targetRot dir\<close> about \<open>ax\<close>.
\<close>

definition quarterTurn :: "axis \<Rightarrow> direction \<Rightarrow> Matrix3" where
  "quarterTurn ax dir = makeRotationFromEuler (vset (0, 0, 0) (axisIndex ax) (targetRot dir))"

text \<open>What one pass of the final loop does to a mesh.\<close>

definition settle :: "Matrix3 \<Rightarrow> Object3D \<Rightarrow> Object3D" where
  "settle p mesh = (attachToGroup p mesh)\<lparr>position := roundVec (position (attachToGroup p mesh))\<rparr>"

definition turned :: "Matrix3 \<Rightarrow> Object3D \<Rightarrow> Object3D" where
  "turned p m = settle p (m\<lparr>parent := PivotP\<rparr>)"

text \<open>
  The effect of a committed turn on one position and on one mesh that hangs under the
  group: nothing off the slice; on the slice the quarter turn, the position rounded.
\<close>

definition turnPos :: "axis \<Rightarrow> int \<Rightarrow> direction \<Rightarrow> Vector3Tuple \<Rightarrow> Vector3Tuple" where
  "turnPos ax sl dir p =
     (if round (vnth p (axisIndex ax)) = sl
      then roundVec (applyMatrix3 (quarterTurn ax dir) p) else p)"

definition turnMesh :: "axis \<Rightarrow> int \<Rightarrow> direction \<Rightarrow> Object3D \<Rightarrow> Object3D" where
  "turnMesh ax sl dir m =
     (if round (vnth (position m) (axisIndex ax)) = sl
      then turned (quarterTurn ax dir) m else m)"

definition intVec :: "Vector3Tuple \<Rightarrow> bool" where
  "intVec v = (case v of (x, y, z) \<Rightarrow> x \<in> \<int> \<and> y \<in> \<int> \<and> z \<in> \<int>)"

text \<open>The lattice \<open>{-1, 0, 1}\<^sup>3\<close>.\<close>

definition cubeLattice :: "Vector3Tuple set" where
  "cubeLattice = {- 1, 0, 1} \<times> {- 1, 0, 1} \<times> {- 1, 0, 1}"

definition latticeCoord :: "real \<Rightarrow> bool" where
  "latticeCoord a \<longleftrightarrow> a = - 1 \<or> a = 0 \<or> a = 1"

text \<open>
  A state between two turns, as the component keeps it: pivot and group are mounted,
  no turn is in flight, the cubelet at index \<open>i\<close> has id \<open>i\<close>, the meshes are those of
  the cubelets, and each mesh hangs under the group at the logical position of its
  cubelet.
\<close>

definition mountedAt :: "Cube3D \<Rightarrow> Cubelet \<Rightarrow> bool" where
  "mountedAt st c =
     (case cubieRefs st (idn c) of
        None \<Rightarrow> False
      | Some m \<Rightarrow> parent m = GroupP \<and> position m = currentPos c)"

definition wellFormed :: "Cube3D \<Rightarrow> bool" where
  "wellFormed st \<longleftrightarrow>
     pivotRef st \<noteq> None \<and> groupRef st \<and> \<not> isAnimating st \<and>
     map idn (cubelets st) = [0..<length (cubelets st)] \<and>
     dom (cubieRefs st) = set (map idn (cubelets st)) \<and>
     list_all (mountedAt st) (cubelets st)"

text \<open>
  The states the component reaches from the fresh cube by committed moves, whatever the
  props and the drag bookkeeping are in between, and whichever render made the
  closure that runs a move.
\<close>

inductive reachable :: "Cube3D \<Rightarrow> bool" where
  fresh: "reachable initialState"
| move: "reachable st \<Longrightarrow> reachable (rotateSliceWith g st ax sl dir)"
| props: "reachable st \<Longrightarrow> reachable (st\<lparr>gameState := g, scramble := b\<rparr>)"
| interact: "reachable st \<Longrightarrow> reachable (st\<lparr>interactRef := ir\<rparr>)"

text \<open>A drag that resolves a move, with the turn it starts run to its end.\<close>

definition completeGesture :: "Cube3D \<Rightarrow> PointerEvent \<Rightarrow> Cube3D" where
  "completeGesture st e =
     (case handlePointerMove st e of
        (st1, None) \<Rightarrow> st1
      | (st1, Some an) \<Rightarrow> rotateSlice_finish st1 an)"

fun opposite :: "direction \<Rightarrow> direction" where
  "opposite Plus1 = Minus1"
| "opposite Minus1 = Plus1"

text \<open>The inverse of a move: same axis and slice, opposite direction.\<close>

definition inverseMove :: "Move \<Rightarrow> Move" where
  "inverseMove m = m\<lparr>direction := opposite (direction m)\<rparr>"

text \<open>The six signed unit vectors of the principal axes.\<close>

definition unitAxes :: "Vector3Tuple list" where
  "unitAxes = [(1, 0, 0), (- 1, 0, 0), (0, 1, 0), (0, - 1, 0), (0, 0, 1), (0, 0, - 1)]"

fun vneg :: "Vector3Tuple \<Rightarrow> Vector3Tuple" where
  "vneg (x, y, z) = (- x, - y, - z)"

text \<open>What every reachable state satisfies.\<close>

definition invariant :: "Cube3D \<Rightarrow> bool" where
  "invariant st \<longleftrightarrow>
     wellFormed st \<and> length (cubelets st) = 27 \<and>
     distinct (map currentPos (cubelets st)) \<and>
     set (map currentPos (cubelets st)) = cubeLattice"

text \<open>
  The solved configuration in the words of the specification. The image of the
  \<open>k\<close>-th basis vector under an orientation is the \<open>k\<close>-th column of its matrix. A
  vector \<open>v\<close> is within the epsilon of a unit reference direction \<open>d\<close> when \<open>v \<bullet> d\<close>,
  the cosine of their angle for a unit \<open>v\<close>, is within 0.1 of 1. The store is solved
  when every cubelet is at its initial position exactly and its orientation takes
  "up" \<open>(0, 1, 0)\<close> and "front" \<open>(0, 0, 1)\<close> to within that epsilon of themselves.
\<close>

definition column :: "Matrix3 \<Rightarrow> nat \<Rightarrow> Vector3Tuple" where
  "column q k = (case q of (r1, r2, r3) \<Rightarrow> (vnth r1 k, vnth r2 k, vnth r3 k))"

definition withinEpsilon :: "Vector3Tuple \<Rightarrow> Vector3Tuple \<Rightarrow> bool" where
  "withinEpsilon v d \<longleftrightarrow> \<bar>vdot v d - 1\<bar> \<le> 0.1"

definition solvedSpec :: "Cubelet list \<Rightarrow> (nat \<rightharpoonup> Object3D) \<Rightarrow> bool" where
  "solvedSpec cs refs \<longleftrightarrow>
     (\<forall>c \<in> set cs.
        currentPos c = initialPos c \<and>
        (case refs (idn c) of
           None \<Rightarrow> False
         | Some ref \<Rightarrow>
             withinEpsilon (column (quaternion ref) 1) (0, 1, 0) \<and>
             withinEpsilon (column (quaternion ref) 2) (0, 0, 1)))"

text \<open>
  The same for a store the component has not kept in order: the check looks at the
  first 27 cubelets, needs them to be there, passes over a cubelet without a mesh and
  compares the rounded logical position.
\<close>

definition checkedSolved :: "Cubelet list \<Rightarrow> (nat \<rightharpoonup> Object3D) \<Rightarrow> bool" where
  "checkedSolved cs refs \<longleftrightarrow>
     27 \<le> length cs \<and>
     (\<forall>c \<in> set (take 27 cs). \<forall>ref. refs (idn c) = Some ref \<longrightarrow>
        roundVec (currentPos c) = initialPos c \<and>
        withinEpsilon (column (quaternion ref) 1) (0, 1, 0) \<and>
        withinEpsilon (column (quaternion ref) 2) (0, 0, 1))"

text \<open>What one iteration of the loop of \<open>checkSolved\<close> lets through.\<close>

definition passes :: "(nat \<rightharpoonup> Object3D) \<Rightarrow> Cubelet \<Rightarrow> bool" where
  "passes refs c =
     (case refs (idn c) of
        None \<Rightarrow> True
      | Some ref \<Rightarrow>
          roundn (vnth (currentPos c) 0) = vnth (initialPos c) 0 \<and>
          roundn (vnth (currentPos c) 1) = vnth (initialPos c) 1 \<and>
          roundn (vnth (currentPos c) 2) = vnth (initialPos c) 2 \<and>
          \<not> \<bar>vnth (applyQuaternion (0, 1, 0) (quaternion ref)) 1 - 1\<bar> > 0.1 \<and>
          \<not> \<bar>vnth (applyQuaternion (0, 0, 1) (quaternion ref)) 2 - 1\<bar> > 0.1)"

text \<open>The cross product: \<open>cross n d\<close> is zero exactly when \<open>d\<close> is parallel to the unit vector \<open>n\<close>.\<close>

fun cross :: "Vector3Tuple \<Rightarrow> Vector3Tuple \<Rightarrow> Vector3Tuple" where
  "cross (a, b, c) (x, y, z) = (b * z - c * y, c * x - a * z, a * y - b * x)"

text \<open>A press on the face \<open>+x\<close> of the corner cubelet 26 of a fresh cube, while playing.\<close>

definition pressedState :: Cube3D where
  "pressedState =
     handlePointerDown (initialState\<lparr>gameState := PLAYING\<rparr>)
       \<lparr> point = (1.475, 1, 1), worldNormal = Some (1, 0, 0), objectIndex = 26 \<rparr>"

text \<open>
  The state after that press was dragged upwards by 0.5: the turn of the slice \<open>z = 1\<close>
  is in flight.
\<close>

definition inFlightState :: Cube3D where
  "inFlightState =
     fst (handlePointerMove pressedState
            \<lparr> point = (1.475, 1.5, 1), worldNormal = None, objectIndex = 26 \<rparr>)"






section \<open>Frame lemmas\<close>

lemma attachToPivot_frame:
  "gameState (attachToPivot i st) = gameState st"
  "scramble (attachToPivot i st) = scramble st"
  "onSolveCalls (attachToPivot i st) = onSolveCalls st"
  "cubelets (attachToPivot i st) = cubelets st"
  "isAnimating (attachToPivot i st) = isAnimating st"
  "groupRef (attachToPivot i st) = groupRef st"
  "pivotRef (attachToPivot i st) = pivotRef st"
  "interactRef (attachToPivot i st) = interactRef st"
  by (simp_all add: attachToPivot_def Let_def split: option.splits)

lemma fold_attachToPivot_frame:
  "gameState (fold attachToPivot is st) = gameState st"
  "scramble (fold attachToPivot is st) = scramble st"
  "onSolveCalls (fold attachToPivot is st) = onSolveCalls st"
  "cubelets (fold attachToPivot is st) = cubelets st"
  "isAnimating (fold attachToPivot is st) = isAnimating st"
  "groupRef (fold attachToPivot is st) = groupRef st"
  "pivotRef (fold attachToPivot is st) = pivotRef st"
  "interactRef (fold attachToPivot is st) = interactRef st"
  by (induction "is" arbitrary: st; simp add: attachToPivot_frame)+

lemma detachCubie_frame:
  "gameState (detachCubie p i st) = gameState st"
  "scramble (detachCubie p i st) = scramble st"
  "onSolveCalls (detachCubie p i st) = onSolveCalls st"
  "isAnimating (detachCubie p i st) = isAnimating st"
  "groupRef (detachCubie p i st) = groupRef st"
  "pivotRef (detachCubie p i st) = pivotRef st"
  "interactRef (detachCubie p i st) = interactRef st"
  "length (cubelets (detachCubie p i st)) = length (cubelets st)"
  by (simp_all add: detachCubie_def Let_def split: option.splits)

lemma fold_detachCubie_frame:
  "gameState (fold (detachCubie p) is st) = gameState st"
  "scramble (fold (detachCubie p) is st) = scramble st"
  "onSolveCalls (fold (detachCubie p) is st) = onSolveCalls st"
  "isAnimating (fold (detachCubie p) is st) = isAnimating st"
  "groupRef (fold (detachCubie p) is st) = groupRef st"
  "pivotRef (fold (detachCubie p) is st) = pivotRef st"
  "interactRef (fold (detachCubie p) is st) = interactRef st"
  "length (cubelets (fold (detachCubie p) is st)) = length (cubelets st)"
  by (induction "is" arbitrary: st; simp add: detachCubie_frame)+

lemma checkSolved_frame:
  "cubelets (checkSolved g st) = cubelets st"
  "cubieRefs (checkSolved g st) = cubieRefs st"
  "pivotRef (checkSolved g st) = pivotRef st"
  "groupRef (checkSolved g st) = groupRef st"
  "isAnimating (checkSolved g st) = isAnimating st"
  "scramble (checkSolved g st) = scramble st"
  "interactRef (checkSolved g st) = interactRef st"
  by (simp_all add: checkSolved_def onSolve_def handleSolve_def)

section \<open>A committed move, mesh by mesh\<close>

lemma roundn_idem [simp]: "roundn (roundn x) = roundn x"
  by (simp add: roundn_def)

lemma roundVec_idem [simp]: "roundVec (roundVec v) = roundVec v"
  by (cases v) simp

lemma settle_idem [simp]: "settle p (settle p m) = settle p m"
  by (simp add: settle_def attachToGroup_def split: Parent.splits)

lemma detachCubie_settle:
  "detachCubie p i st =
     (let c = cubelets st ! i in
      case cubieRefs st (idn c) of
        None \<Rightarrow> st
      | Some mesh \<Rightarrow> st\<lparr>cubieRefs := (cubieRefs st)(idn c \<mapsto> settle p mesh),
                 cubelets := (cubelets st)[i := c\<lparr>currentPos := position (settle p mesh)\<rparr>]\<rparr>)"
  by (simp add: detachCubie_def settle_def Let_def split: option.splits)

lemma detachCubie_idn: "idn (cubelets (detachCubie p i st) ! j) = idn (cubelets st ! j)"
proof (cases "i < length (cubelets st)")
  case True
  then show ?thesis
    by (cases "j = i") (simp_all add: detachCubie_settle Let_def split: option.splits)
next
  case False
  then show ?thesis
    by (simp add: detachCubie_settle Let_def list_update_beyond split: option.splits)
qed

lemma attachToPivot_refs:
  "cubieRefs (attachToPivot i st) k =
     (if k = idn (cubelets st ! i)
      then map_option (\<lambda>m. m\<lparr>parent := PivotP\<rparr>) (cubieRefs st k)
      else cubieRefs st k)"
  by (simp add: attachToPivot_def Let_def split: option.splits)

lemma detachCubie_refs:
  "cubieRefs (detachCubie p i st) k =
     (if k = idn (cubelets st ! i) then map_option (settle p) (cubieRefs st k)
      else cubieRefs st k)"
  by (simp add: detachCubie_settle Let_def split: option.splits)

lemma fold_attachToPivot_refs:
  "cubieRefs (fold attachToPivot is st) k =
     (if k \<in> (\<lambda>i. idn (cubelets st ! i)) ` set is
      then map_option (\<lambda>m. m\<lparr>parent := PivotP\<rparr>) (cubieRefs st k)
      else cubieRefs st k)"
proof (induction "is" arbitrary: st)
  case Nil
  then show ?case by simp
next
  case (Cons i "is")
  show ?case
    by (cases "cubieRefs st k")
       (auto simp: Cons.IH attachToPivot_frame attachToPivot_refs)
qed

lemma fold_detachCubie_refs:
  "cubieRefs (fold (detachCubie p) is st) k =
     (if k \<in> (\<lambda>i. idn (cubelets st ! i)) ` set is
      then map_option (settle p) (cubieRefs st k)
      else cubieRefs st k)"
proof (induction "is" arbitrary: st)
  case Nil
  then show ?case by simp
next
  case (Cons i "is")
  have "cubieRefs (fold (detachCubie p) is (detachCubie p i st)) k =
     (if k \<in> (\<lambda>i. idn (cubelets st ! i)) ` set is
      then map_option (settle p) (cubieRefs (detachCubie p i st) k)
      else cubieRefs (detachCubie p i st) k)"
    by (simp add: Cons.IH detachCubie_idn)
  then show ?case
    by (cases "cubieRefs st k") (auto simp: detachCubie_refs)
qed

lemma detachCubie_nth:
  "j < length (cubelets st) \<Longrightarrow>
   cubelets (detachCubie p i st) ! j =
     (if j = i
      then (case cubieRefs st (idn (cubelets st ! j)) of
              None \<Rightarrow> cubelets st ! j
            | Some m \<Rightarrow> (cubelets st ! j)\<lparr>currentPos := position (settle p m)\<rparr>)
      else cubelets st ! j)"
  by (simp add: detachCubie_settle Let_def split: option.splits)

lemma fold_detachCubie_nth:
  "j < length (cubelets st) \<Longrightarrow>
   cubelets (fold (detachCubie p) is st) ! j =
     (if j \<in> set is
      then (case cubieRefs st (idn (cubelets st ! j)) of
              None \<Rightarrow> cubelets st ! j
            | Some m \<Rightarrow> (cubelets st ! j)\<lparr>currentPos := position (settle p m)\<rparr>)
      else cubelets st ! j)"
proof (induction "is" arbitrary: st)
  case Nil
  then show ?case by simp
next
  case (Cons i "is")
  have len: "j < length (cubelets (detachCubie p i st))"
    using Cons.prems by (simp add: detachCubie_frame)
  show ?case
    using Cons.prems
    by (cases "cubieRefs st (idn (cubelets st ! j))")
       (auto simp: Cons.IH[OF len] detachCubie_idn detachCubie_refs detachCubie_nth 
             split: option.splits)
qed

lemma set_activeCubies:
  "set (activeCubies cs ax sl) =
     {i. i < length cs \<and> round (vnth (currentPos (cs ! i)) (axisIndex ax)) = sl}"
  by (auto simp: activeCubies_def)

lemma rotateSlice_unmounted:
  "pivotRef st = None \<or> \<not> groupRef st \<Longrightarrow> rotateSliceWith g st ax sl dir = st"
  by (auto simp: rotateSliceWith_def rotateSlice_begin_def)

lemma rotateSlice_mounted:
  assumes "pivotRef st \<noteq> None" "groupRef st"
  shows "rotateSliceWith g st ax sl dir =
     checkSolved g
       ((fold (detachCubie (quarterTurn ax dir)) (activeCubies (cubelets st) ax sl)
          ((fold attachToPivot (activeCubies (cubelets st) ax sl)
              (st\<lparr>isAnimating := True, pivotRef := Some (0, 0, 0)\<rparr>))
            \<lparr>pivotRef := Some (vset (0, 0, 0) (axisIndex ax) (targetRot dir))\<rparr>))
        \<lparr>isAnimating := False\<rparr>)"
proof -
  obtain rot where "pivotRef st = Some rot"
    using assms(1) by blast
  then show ?thesis
    using assms(2)
    by (simp add: rotateSliceWith_def rotateSlice_begin_def rotateSlice_finish_def Let_def
        fold_attachToPivot_frame quarterTurn_def del: vset.simps makeRotationFromEuler.simps)
qed

lemma rotateSlice_length:
  "length (cubelets (rotateSliceWith g st ax sl dir)) = length (cubelets st)"
proof (cases "pivotRef st = None \<or> \<not> groupRef st")
  case True
  then show ?thesis by (simp add: rotateSlice_unmounted)
next
  case False
  then have "pivotRef st \<noteq> None" "groupRef st" by simp_all
  then show ?thesis
    by (simp add: rotateSlice_mounted checkSolved_frame fold_detachCubie_frame
        fold_attachToPivot_frame)
qed

lemma turned_eq:
  "turned p m = \<lparr> position = roundVec (applyMatrix3 p (position m)),
                  quaternion = multiply3 p (quaternion m), parent = GroupP \<rparr>"
  by (simp add: turned_def settle_def attachToGroup_def)

lemma rotateSlice_refs:
  assumes "pivotRef st \<noteq> None" "groupRef st"
  shows "cubieRefs (rotateSliceWith g st ax sl dir) k =
     (if k \<in> (\<lambda>i. idn (cubelets st ! i)) ` set (activeCubies (cubelets st) ax sl)
      then map_option (turned (quarterTurn ax dir)) (cubieRefs st k)
      else cubieRefs st k)"
  by (simp add: rotateSlice_mounted[OF assms] checkSolved_frame fold_detachCubie_refs
      fold_attachToPivot_refs fold_attachToPivot_frame option.map_comp comp_def
      turned_def[abs_def])

lemma rotateSlice_nth:
  assumes "pivotRef st \<noteq> None" "groupRef st" "j < length (cubelets st)"
  shows "cubelets (rotateSliceWith g st ax sl dir) ! j =
     (if j \<in> set (activeCubies (cubelets st) ax sl)
      then (case cubieRefs st (idn (cubelets st ! j)) of
              None \<Rightarrow> cubelets st ! j
            | Some m \<Rightarrow> (cubelets st ! j)\<lparr>currentPos := position (turned (quarterTurn ax dir) m)\<rparr>)
      else cubelets st ! j)"
  using assms(3)
  by (auto simp add: rotateSlice_mounted[OF assms(1,2)] checkSolved_frame fold_detachCubie_nth
      fold_attachToPivot_refs fold_attachToPivot_frame turned_def split: option.splits)

section \<open>What a committed move leaves alone\<close>

text \<open>
  Claim C9. A committed move \<open>rotateSlice st ax sl dir\<close> keeps the number of cubelets
  and, of every cubelet, the id, the initial position and the colour map; the current
  position of a cubelet whose rounded coordinate along the axis is not the slice is
  unchanged. This holds in every state of the component.
\<close>

theorem rotateSlice_frame:
  "length (cubelets (rotateSlice st ax sl dir)) = length (cubelets st) \<and>
   (\<forall>j < length (cubelets st).
      idn (cubelets (rotateSlice st ax sl dir) ! j) = idn (cubelets st ! j) \<and>
      initialPos (cubelets (rotateSlice st ax sl dir) ! j) = initialPos (cubelets st ! j) \<and>
      colorMap (cubelets (rotateSlice st ax sl dir) ! j) = colorMap (cubelets st ! j) \<and>
      (round (vnth (currentPos (cubelets st ! j)) (axisIndex ax)) \<noteq> sl \<longrightarrow>
         currentPos (cubelets (rotateSlice st ax sl dir) ! j) = currentPos (cubelets st ! j)))"
proof (cases "pivotRef st = None \<or> \<not> groupRef st")
  case True
  then show ?thesis by (simp add: rotateSlice_def rotateSlice_unmounted)
next
  case False
  then have m: "pivotRef st \<noteq> None" "groupRef st" by simp_all
  show ?thesis
    by (simp add: rotateSlice_def rotateSlice_length rotateSlice_nth[OF m] set_activeCubies
        split: option.splits)
qed

lemma initialCubelets_fields:
  "length initialCubelets = 27"
  "map idn initialCubelets = [0..<27]"
  "map currentPos initialCubelets = initialPositions"
  "map initialPos initialCubelets = initialPositions"
  by (simp_all add: initialCubelets_def initialPositions_def enumerate_eq_zip upt_rec)



lemma round_minus_one: "round (- 1 :: real) = - 1"
  by (simp add: round_def)

theorem rotateSlice_frame_witness:
  "0 < length (cubelets initialState) \<and>
   round (vnth (currentPos (cubelets initialState ! 0)) (axisIndex Xaxis)) \<noteq> 1 \<and>
   currentPos (cubelets (rotateSlice initialState Xaxis 1 Plus1) ! 0) = (- 1, - 1, - 1) \<and>
   idn (cubelets (rotateSlice initialState Xaxis 1 Plus1) ! 0) = 0"
proof -
  have c0: "cubelets initialState ! 0 = makeCubelet (0, (- 1, - 1, - 1))"
    by (simp add: initialState_def initialCubelets_def initialPositions_def enumerate_eq_zip upt_rec)
  have len: "0 < length (cubelets initialState)"
    by (simp add: initialState_def initialCubelets_fields)
  have r: "round (vnth (currentPos (cubelets initialState ! 0)) (axisIndex Xaxis)) \<noteq> 1"
    by (simp add: c0 round_minus_one)
  show ?thesis
    using len r rotateSlice_frame[of initialState Xaxis 1 Plus1, THEN conjunct2, rule_format, OF len]
    by (simp add: c0)
qed

section \<open>Quarter turns of positions and of exact rotations\<close>

lemma quarterTurn_simps:
  "quarterTurn Xaxis Plus1 = ((1, 0, 0), (0, 0, 1), (0, - 1, 0))"
  "quarterTurn Xaxis Minus1 = ((1, 0, 0), (0, 0, - 1), (0, 1, 0))"
  "quarterTurn Yaxis Plus1 = ((0, 0, - 1), (0, 1, 0), (1, 0, 0))"
  "quarterTurn Yaxis Minus1 = ((0, 0, 1), (0, 1, 0), (- 1, 0, 0))"
  "quarterTurn Zaxis Plus1 = ((0, 1, 0), (- 1, 0, 0), (0, 0, 1))"
  "quarterTurn Zaxis Minus1 = ((0, - 1, 0), (1, 0, 0), (0, 0, 1))"
  by (simp_all add: quarterTurn_def targetRot_def)

lemma roundn_of_int [simp]: "roundn (of_int i) = of_int i"
  by (simp add: roundn_def)

lemma roundn_minus_of_int [simp]: "roundn (- of_int i) = - of_int i"
  using roundn_of_int[of "- i"] by simp

lemma intVecE:
  assumes "intVec p"
  obtains i j k where "p = (of_int i, of_int j, of_int k)"
  using assms by (cases p) (auto simp: intVec_def elim!: Ints_cases)

lemma intVec_of_int [simp]: "intVec (of_int i, of_int j, of_int k)"
  by (simp add: intVec_def)

lemma round_minus_of_int [simp]: "round (- (of_int i :: real)) = - i"
  using round_of_int[of "- i", where 'a = real] by simp

lemma turnPos_intVec: "intVec p \<Longrightarrow> intVec (turnPos ax sl dir p)"
  by (erule intVecE) (cases ax; cases dir; simp add: turnPos_def quarterTurn_simps intVec_def)

lemma turnPos_four:
  "intVec p \<Longrightarrow> turnPos ax sl dir (turnPos ax sl dir (turnPos ax sl dir (turnPos ax sl dir p))) = p"
  by (erule intVecE) (cases ax; cases dir; simp add: turnPos_def quarterTurn_simps)

lemma turnPos_inverse:
  "intVec p \<Longrightarrow> turnPos ax sl (opposite dir) (turnPos ax sl dir p) = p"
  by (erule intVecE) (cases ax; cases dir; simp add: turnPos_def quarterTurn_simps)

lemma cubeLattice_iff:
  "(x, y, z) \<in> cubeLattice \<longleftrightarrow> latticeCoord x \<and> latticeCoord y \<and> latticeCoord z"
  unfolding cubeLattice_def latticeCoord_def by (simp only: mem_Sigma_iff insert_iff empty_iff simp_thms)

lemma latticeCoord_simps:
  assumes "latticeCoord a"
  shows "latticeCoord (- a)" "roundn a = a" "roundn (- a) = - a"
  using assms by (auto simp: latticeCoord_def roundn_def round_minus_one)

lemma turnPos_lattice: "p \<in> cubeLattice \<Longrightarrow> turnPos ax sl dir p \<in> cubeLattice"
proof -
  assume p: "p \<in> cubeLattice"
  obtain x y z where pe: "p = (x, y, z)" by (cases p)
  have c: "latticeCoord x" "latticeCoord y" "latticeCoord z"
    using p by (simp_all add: pe cubeLattice_iff)
  note l = latticeCoord_simps[OF c(1)] latticeCoord_simps[OF c(2)] latticeCoord_simps[OF c(3)]
  show ?thesis
    unfolding pe turnPos_def
    using c l by (cases ax; cases dir; simp add: quarterTurn_simps cubeLattice_iff)
qed

lemma cubeLattice_intVec: "p \<in> cubeLattice \<Longrightarrow> intVec p"
  by (cases p rule: prod_cases3) (auto simp: cubeLattice_iff latticeCoord_def intVec_def)

lemma position_turnMesh: "position (turnMesh ax sl dir m) = turnPos ax sl dir (position m)"
  by (simp add: turnMesh_def turnPos_def turned_eq)

lemma parent_turnMesh: "parent m = GroupP \<Longrightarrow> parent (turnMesh ax sl dir m) = GroupP"
  by (simp add: turnMesh_def turned_eq)

lemma Matrix3_cases:
  obtains a b c d e f g h i where "(q :: Matrix3) = ((a, b, c), (d, e, f), (g, h, i))"
proof -
  obtain r1 r2 r3 where q: "q = (r1, r2, r3)" by (cases q)
  obtain a b c where r1: "r1 = (a, b, c)" by (cases r1)
  obtain d e f where r2: "r2 = (d, e, f)" by (cases r2)
  obtain g h i where r3: "r3 = (g, h, i)" by (cases r3)
  show thesis using that[of a b c d e f g h i] by (simp add: q r1 r2 r3)
qed





section \<open>A committed move in a well-formed state\<close>

lemma wellFormed_nth:
  assumes "wellFormed st" "j < length (cubelets st)"
  shows "idn (cubelets st ! j) = j"
    and "\<exists>m. cubieRefs st j = Some m \<and> parent m = GroupP \<and> position m = currentPos (cubelets st ! j)"
proof -
  have "map idn (cubelets st) ! j = [0..<length (cubelets st)] ! j"
    using assms(1) by (simp add: wellFormed_def)
  then show i: "idn (cubelets st ! j) = j"
    using assms(2) by simp
  have "mountedAt st (cubelets st ! j)"
    using assms by (simp add: wellFormed_def list_all_length)
  then show "\<exists>m. cubieRefs st j = Some m \<and> parent m = GroupP \<and> position m = currentPos (cubelets st ! j)"
    by (simp add: mountedAt_def i split: option.splits)
qed

lemma wellFormed_dom:
  assumes "wellFormed st"
  shows "dom (cubieRefs st) = {..<length (cubelets st)}"
proof -
  have "dom (cubieRefs st) = set [0..<length (cubelets st)]"
    using assms unfolding wellFormed_def by metis
  then show ?thesis by (simp add: lessThan_atLeast0)
qed

lemma wellFormed_beyond:
  assumes "wellFormed st" "\<not> k < length (cubelets st)"
  shows "cubieRefs st k = None"
  using wellFormed_dom[OF assms(1)] assms(2) by (auto simp: dom_def)

lemma wellFormed_mounted:
  "wellFormed st \<Longrightarrow> pivotRef st \<noteq> None" "wellFormed st \<Longrightarrow> groupRef st"
  by (simp_all add: wellFormed_def)

lemma wellFormed_active:
  assumes "wellFormed st"
  shows "k \<in> (\<lambda>i. idn (cubelets st ! i)) ` set (activeCubies (cubelets st) ax sl) \<longleftrightarrow>
         k < length (cubelets st) \<and> round (vnth (currentPos (cubelets st ! k)) (axisIndex ax)) = sl"
  using wellFormed_nth(1)[OF assms]
  by (auto simp: set_activeCubies image_iff)

lemma rotateSlice_wf_refs:
  assumes "wellFormed st"
  shows "cubieRefs (rotateSliceWith g st ax sl dir) k = map_option (turnMesh ax sl dir) (cubieRefs st k)"
proof (cases "k < length (cubelets st)")
  case True
  obtain m where m: "cubieRefs st k = Some m" "position m = currentPos (cubelets st ! k)"
    using wellFormed_nth(2)[OF assms True] by blast
  show ?thesis
    using True m
    by (simp add: rotateSlice_refs[OF wellFormed_mounted[OF assms]] wellFormed_active[OF assms]
        turnMesh_def)
next
  case False
  then show ?thesis
    by (simp add: rotateSlice_refs[OF wellFormed_mounted[OF assms]] wellFormed_active[OF assms]
        wellFormed_beyond[OF assms False])
qed

lemma rotateSlice_wf_cubelets:
  assumes "wellFormed st"
  shows "cubelets (rotateSliceWith g st ax sl dir) =
     map (\<lambda>c. c\<lparr>currentPos := turnPos ax sl dir (currentPos c)\<rparr>) (cubelets st)"
proof (rule nth_equalityI)
  show "length (cubelets (rotateSliceWith g st ax sl dir)) =
        length (map (\<lambda>c. c\<lparr>currentPos := turnPos ax sl dir (currentPos c)\<rparr>) (cubelets st))"
    by (simp add: rotateSlice_length)
next
  fix j assume "j < length (cubelets (rotateSliceWith g st ax sl dir))"
  then have j: "j < length (cubelets st)" by (simp add: rotateSlice_length)
  obtain m where m: "cubieRefs st j = Some m" "position m = currentPos (cubelets st ! j)"
    using wellFormed_nth(2)[OF assms j] by blast
  show "cubelets (rotateSliceWith g st ax sl dir) ! j =
        map (\<lambda>c. c\<lparr>currentPos := turnPos ax sl dir (currentPos c)\<rparr>) (cubelets st) ! j"
    using j m wellFormed_nth(1)[OF assms j]
    by (simp add: rotateSlice_nth[OF wellFormed_mounted[OF assms] j] set_activeCubies
        turnPos_def turned_eq)
qed

lemma rotateSlice_other_fields:
  assumes "pivotRef st \<noteq> None" "groupRef st"
  shows "pivotRef (rotateSliceWith g st ax sl dir) \<noteq> None"
    and "groupRef (rotateSliceWith g st ax sl dir)"
    and "\<not> isAnimating (rotateSliceWith g st ax sl dir)"
    and "scramble (rotateSliceWith g st ax sl dir) = scramble st"
    and "interactRef (rotateSliceWith g st ax sl dir) = interactRef st"
  using assms(2)
  by (simp_all add: rotateSlice_mounted[OF assms] checkSolved_frame fold_detachCubie_frame
      fold_attachToPivot_frame)

lemma rotateSlice_wellFormed:
  assumes "wellFormed st"
  shows "wellFormed (rotateSliceWith g st ax sl dir)"
proof -
  let ?st' = "rotateSliceWith g st ax sl dir"
  note mt = wellFormed_mounted[OF assms]
  have ids: "map idn (cubelets ?st') = map idn (cubelets st)"
    by (simp add: rotateSlice_wf_cubelets[OF assms] comp_def)
  have len: "length (cubelets ?st') = length (cubelets st)"
    by (simp add: rotateSlice_length)
  have dm: "dom (cubieRefs ?st') = dom (cubieRefs st)"
    by (auto simp: rotateSlice_wf_refs[OF assms] dom_def)
  have mo: "list_all (mountedAt ?st') (cubelets ?st')"
    unfolding list_all_length
  proof (intro allI impI)
    fix j assume "j < length (cubelets ?st')"
    then have j: "j < length (cubelets st)" by (simp add: len)
    obtain m where m: "cubieRefs st j = Some m" "parent m = GroupP"
        "position m = currentPos (cubelets st ! j)"
      using wellFormed_nth(2)[OF assms j] by blast
    show "mountedAt ?st' (cubelets ?st' ! j)"
      using j m wellFormed_nth(1)[OF assms j]
      by (simp add: mountedAt_def rotateSlice_wf_refs[OF assms] rotateSlice_wf_cubelets[OF assms]
          parent_turnMesh position_turnMesh)
  qed
  show ?thesis
    unfolding wellFormed_def
  proof (intro conjI)
    show "pivotRef ?st' \<noteq> None" by (rule rotateSlice_other_fields(1)[OF mt])
    show "groupRef ?st'" by (rule rotateSlice_other_fields(2)[OF mt])
    show "\<not> isAnimating ?st'" by (rule rotateSlice_other_fields(3)[OF mt])
    show "map idn (cubelets ?st') = [0..<length (cubelets ?st')]"
      using assms unfolding wellFormed_def ids len by blast
    show "dom (cubieRefs ?st') = set (map idn (cubelets ?st'))"
      using assms unfolding wellFormed_def ids dm by blast
    show "list_all (mountedAt ?st') (cubelets ?st')" by (rule mo)
  qed
qed

section \<open>The invariant of the reachable states\<close>

lemma set_triples:
  "set (concat (map (\<lambda>x. concat (map (\<lambda>y. map (\<lambda>z. (x, y, z)) zs) ys)) xs)) =
     set xs \<times> set ys \<times> set zs"
  by auto

lemma distinct_initialPositions: "distinct initialPositions"
proof (rule card_distinct)
  have "card (set initialPositions) = card ({- 1, 0, 1 :: real} \<times> {- 1, 0, 1 :: real} \<times> {- 1, 0, 1 :: real})"
    unfolding initialPositions_def set_triples by simp
  also have "\<dots> = 27"
    by (simp only: card_cartesian_product) simp
  finally show "card (set initialPositions) = length initialPositions"
    by (simp add: initialPositions_def)
qed

lemma set_initialPositions: "set initialPositions = cubeLattice"
  unfolding initialPositions_def cubeLattice_def set_triples by simp

lemma map_of_mountCubie:
  assumes "distinct (map idn cs)" "c \<in> set cs"
  shows "map_of (map mountCubie cs) (idn c) =
         Some \<lparr> position = initialPos c, quaternion = identity3, parent = GroupP \<rparr>"
proof -
  have "distinct (map fst (map mountCubie cs))"
    using assms(1) by (simp add: comp_def mountCubie_def)
  moreover have "(idn c, \<lparr> position = initialPos c, quaternion = identity3, parent = GroupP \<rparr>)
      \<in> set (map mountCubie cs)"
    using assms(2) by (auto simp: mountCubie_def image_iff)
  ultimately show ?thesis by (rule map_of_is_SomeI)
qed

lemma initialPos_initialCubelets: "c \<in> set initialCubelets \<Longrightarrow> currentPos c = initialPos c"
  by (auto simp: initialCubelets_def)

lemma wellFormed_initialState: "wellFormed initialState"
proof -
  have d: "distinct (map idn initialCubelets)"
    by (simp add: initialCubelets_fields)
  have "dom (map_of (map mountCubie initialCubelets)) = set (map idn initialCubelets)"
    by (simp add: dom_map_of_conv_image_fst image_image mountCubie_def)
  moreover have "list_all (mountedAt initialState) initialCubelets"
    unfolding list_all_iff
  proof
    fix c assume c: "c \<in> set initialCubelets"
    show "mountedAt initialState c"
      by (simp add: mountedAt_def initialState_def map_of_mountCubie[OF d c]
          initialPos_initialCubelets[OF c])
  qed
  ultimately show ?thesis
    by (simp add: wellFormed_def initialState_def initialCubelets_fields)
qed

lemma invariant_initialState: "invariant initialState"
  unfolding invariant_def
  using wellFormed_initialState
  by (simp add: initialState_def initialCubelets_fields distinct_initialPositions
      set_initialPositions)

lemma opposite_opposite [simp]: "opposite (opposite dir) = dir"
  by (cases dir) simp_all

lemma turnPos_inj_on: "inj_on (turnPos ax sl dir) cubeLattice"
  by (rule inj_on_inverseI[where g = "turnPos ax sl (opposite dir)"])
     (simp add: turnPos_inverse cubeLattice_intVec)

lemma turnPos_image: "turnPos ax sl dir ` cubeLattice = cubeLattice"
proof
  show "turnPos ax sl dir ` cubeLattice \<subseteq> cubeLattice"
    by (auto simp: turnPos_lattice)
  show "cubeLattice \<subseteq> turnPos ax sl dir ` cubeLattice"
  proof
    fix p assume p: "p \<in> cubeLattice"
    have "turnPos ax sl dir (turnPos ax sl (opposite dir) p) = p"
      using turnPos_inverse[OF cubeLattice_intVec[OF p], of ax sl "opposite dir"] by simp
    moreover have "turnPos ax sl (opposite dir) p \<in> cubeLattice"
      using p by (rule turnPos_lattice)
    ultimately show "p \<in> turnPos ax sl dir ` cubeLattice"
      by (metis imageI)
  qed
qed

lemma invariant_rotateSlice:
  assumes "invariant st"
  shows "invariant (rotateSliceWith g st ax sl dir)"
proof -
  have wf: "wellFormed st" using assms by (simp add: invariant_def)
  have cp: "map currentPos (cubelets (rotateSliceWith g st ax sl dir)) =
      map (turnPos ax sl dir) (map currentPos (cubelets st))"
    by (simp add: rotateSlice_wf_cubelets[OF wf] comp_def)
  have s: "set (map currentPos (cubelets st)) = cubeLattice"
    and d: "distinct (map currentPos (cubelets st))"
    using assms by (simp_all add: invariant_def)
  have d': "distinct (map currentPos (cubelets (rotateSliceWith g st ax sl dir)))"
    unfolding cp
  proof (subst distinct_map, intro conjI)
    show "distinct (map currentPos (cubelets st))" by (rule d)
    show "inj_on (turnPos ax sl dir) (set (map currentPos (cubelets st)))"
      unfolding s by (rule turnPos_inj_on)
  qed
  have s': "set (map currentPos (cubelets (rotateSliceWith g st ax sl dir))) = cubeLattice"
    unfolding cp using s turnPos_image[of ax sl dir] by (simp only: set_map)
  show ?thesis
    unfolding invariant_def
    using assms rotateSlice_wellFormed[OF wf, of g ax sl dir] d' s'
    by (simp add: invariant_def rotateSlice_length)
qed

lemma mountedAt_update [simp]:
  "mountedAt (st\<lparr>gameState := g\<rparr>) = mountedAt st"
  "mountedAt (st\<lparr>scramble := b\<rparr>) = mountedAt st"
  "mountedAt (st\<lparr>interactRef := ir\<rparr>) = mountedAt st"
  by (rule ext, simp add: mountedAt_def)+

lemma wellFormed_update [simp]:
  "wellFormed (st\<lparr>gameState := g\<rparr>) = wellFormed st"
  "wellFormed (st\<lparr>scramble := b\<rparr>) = wellFormed st"
  "wellFormed (st\<lparr>interactRef := ir\<rparr>) = wellFormed st"
  by (simp_all add: wellFormed_def)

lemma invariant_update [simp]:
  "invariant (st\<lparr>gameState := g\<rparr>) = invariant st"
  "invariant (st\<lparr>scramble := b\<rparr>) = invariant st"
  "invariant (st\<lparr>interactRef := ir\<rparr>) = invariant st"
  by (simp_all add: invariant_def)

lemma reachable_invariant: "reachable st \<Longrightarrow> invariant st"
proof (induction rule: reachable.induct)
  case fresh
  show ?case by (rule invariant_initialState)
next
  case (move st g ax sl dir)
  then show ?case by (simp add: invariant_rotateSlice)
next
  case (props st g b)
  then show ?case by simp
next
  case (interact st ir)
  then show ?case by simp
qed

text \<open>
  The handlers, a gesture run to its end, the scramble and the start sequence of the
  application keep the component within the reachable states.
\<close>

lemma completeGesture_cases:
  "completeGesture st e = st \<or>
   completeGesture st e = st\<lparr>interactRef := (interactRef st)\<lparr>isDragging := False\<rparr>\<rparr> \<or>
   (\<exists>ax sl dir. completeGesture st e =
      rotateSliceWith (gameState st)
        (st\<lparr>interactRef := (interactRef st)\<lparr>isDragging := False\<rparr>\<rparr>) ax sl dir)"
  by (auto simp: completeGesture_def handlePointerMove_def rotateSliceWith_def Let_def)

lemma reachable_gameState: "reachable st \<Longrightarrow> reachable (st\<lparr>gameState := g\<rparr>)"
  using reachable.props[where st = st and g = g and b = "scramble st"] by simp

lemma reachable_runScramble: "reachable st \<Longrightarrow> reachable (runScramble g gs rnd i st)"
proof (induction g gs rnd i st rule: runScramble.induct)
  case (1 g gs rnd i st)
  show ?case
  proof (cases "i < 20")
    case True
    then show ?thesis
      using "1.IH"[OF True refl refl refl reachable.move[OF reachable_gameState[OF "1.prems"]]]
      by (subst runScramble.simps) (simp add: Let_def)
  next
    case False
    then show ?thesis using "1.prems" by (subst runScramble.simps) simp
  qed
qed

lemma reachable_component:
  assumes "reachable st"
  shows "reachable (handlePointerDown st e)"
    and "reachable (handlePointerUp st)"
    and "reachable (completeGesture st e)"
    and "reachable (scrambleEffect gs rnd st)"
    and "reachable (startSequence st)"
    and "reachable (handleReset st)"
proof -
  show "reachable (handlePointerDown st e)"
    using assms by (auto simp: handlePointerDown_def intro: reachable.interact split: option.splits)
  show "reachable (handlePointerUp st)"
    using assms by (auto simp: handlePointerUp_def intro: reachable.interact)
  have l: "reachable (st\<lparr>interactRef := (interactRef st)\<lparr>isDragging := False\<rparr>\<rparr>)"
    using assms by (rule reachable.interact)
  show "reachable (completeGesture st e)"
    using completeGesture_cases[of st e] assms l reachable.move[OF l]
    by auto
  show "reachable (scrambleEffect gs rnd st)"
    using assms by (simp add: scrambleEffect_def reachable_runScramble)
  show "reachable (handleReset st)"
    using assms by (simp add: handleReset_def reachable_gameState)
  have "startSequence st = st\<lparr>gameState := IDLE, scramble := True\<rparr>"
    by (simp add: startSequence_def)
  then show "reachable (startSequence st)"
    using reachable.props[OF assms, where g = IDLE and b = True] by simp
qed

section \<open>Bijection, four turns, inverse turns\<close>

lemma reachable_fold_commit: "reachable st \<Longrightarrow> reachable (fold commit ms st)"
  by (induction ms arbitrary: st) (simp_all add: commit_def rotateSlice_def reachable.move)

text \<open>
  Claim C1. After every finite sequence of committed moves from the fresh cube,
  whatever the game state, there are 27 cubelets, their current positions are pairwise
  distinct, and the set of these positions is exactly \<open>{-1, 0, 1}\<^sup>3\<close>: every
  coordinate is an integer among -1, 0, 1, no two cubelets share a position, and every
  lattice position is taken.
\<close>

theorem lattice_bijection:
  "length (cubelets (fold commit ms (initialState\<lparr>gameState := g\<rparr>))) = 27 \<and>
   distinct (map currentPos (cubelets (fold commit ms (initialState\<lparr>gameState := g\<rparr>)))) \<and>
   set (map currentPos (cubelets (fold commit ms (initialState\<lparr>gameState := g\<rparr>)))) = cubeLattice"
proof -
  have "initialState\<lparr>gameState := g\<rparr> = initialState\<lparr>gameState := g, scramble := False\<rparr>"
    by (simp add: initialState_def)
  then have "reachable (initialState\<lparr>gameState := g\<rparr>)"
    using reachable.props[OF reachable.fresh, where g = g and b = False] by simp
  then have "invariant (fold commit ms (initialState\<lparr>gameState := g\<rparr>))"
    by (intro reachable_invariant reachable_fold_commit)
  then show ?thesis
    by (simp add: invariant_def)
qed

lemma invariant_mesh:
  assumes "invariant st" "cubieRefs st k = Some m"
  shows "parent m = GroupP" "intVec (position m)"
proof -
  have wf: "wellFormed st" using assms(1) by (simp add: invariant_def)
  have k: "k < length (cubelets st)"
    using wellFormed_beyond[OF wf, of k] assms(2) by auto
  obtain m' where m': "cubieRefs st k = Some m'" "parent m' = GroupP"
      "position m' = currentPos (cubelets st ! k)"
    using wellFormed_nth(2)[OF wf k] by blast
  have "currentPos (cubelets st ! k) \<in> set (map currentPos (cubelets st))"
    using k by simp
  then have "currentPos (cubelets st ! k) \<in> cubeLattice"
    using assms(1) by (simp only: invariant_def)
  then show "parent m = GroupP" "intVec (position m)"
    using m' assms(2) by (simp_all add: cubeLattice_intVec)
qed

lemma invariant_cubelet:
  assumes "invariant st" "c \<in> set (cubelets st)"
  shows "intVec (currentPos c)"
proof -
  have "currentPos c \<in> set (map currentPos (cubelets st))"
    using assms(2) by simp
  then have "currentPos c \<in> cubeLattice"
    using assms(1) by (simp only: invariant_def)
  then show ?thesis by (rule cubeLattice_intVec)
qed

lemma invariant_commit_cubelets:
  assumes "invariant st"
  shows "cubelets (commit m st) =
     map (\<lambda>c. c\<lparr>currentPos := turnPos (axis m) (slice m) (direction m) (currentPos c)\<rparr>) (cubelets st)"
    and "cubieRefs (commit m st) =
     (\<lambda>k. map_option (turnMesh (axis m) (slice m) (direction m)) (cubieRefs st k))"
    and "invariant (commit m st)"
proof -
  have wf: "wellFormed st" using assms by (simp add: invariant_def)
  show "cubelets (commit m st) =
     map (\<lambda>c. c\<lparr>currentPos := turnPos (axis m) (slice m) (direction m) (currentPos c)\<rparr>) (cubelets st)"
    by (simp add: commit_def rotateSlice_def rotateSlice_wf_cubelets[OF wf])
  show "cubieRefs (commit m st) =
     (\<lambda>k. map_option (turnMesh (axis m) (slice m) (direction m)) (cubieRefs st k))"
    by (rule ext) (simp add: commit_def rotateSlice_def rotateSlice_wf_refs[OF wf])
  show "invariant (commit m st)"
    using assms by (simp add: commit_def rotateSlice_def invariant_rotateSlice)
qed

text \<open>
  The logical positions and the mesh positions, which every commit rounds, come back
  exactly after four equal turns and after a turn and its inverse. Nothing is said
  here of the orientations: the renderer composes them in double precision and the
  component never rounds them.
\<close>

lemma four_commits_restore_positions:
  assumes "reachable st"
  shows "cubelets (commit m (commit m (commit m (commit m st)))) = cubelets st"
    and "map_option position (cubieRefs (commit m (commit m (commit m (commit m st)))) k) =
         map_option position (cubieRefs st k)"
proof -
  let ?t = "turnMesh (axis m) (slice m) (direction m)"
  let ?f = "\<lambda>c. c\<lparr>currentPos := turnPos (axis m) (slice m) (direction m) (currentPos c)\<rparr>"
  have i0: "invariant st" using assms by (rule reachable_invariant)
  have i1: "invariant (commit m st)" using i0 by (rule invariant_commit_cubelets(3))
  have i2: "invariant (commit m (commit m st))" using i1 by (rule invariant_commit_cubelets(3))
  have i3: "invariant (commit m (commit m (commit m st)))"
    using i2 by (rule invariant_commit_cubelets(3))
  have c4: "cubelets (commit m (commit m (commit m (commit m st)))) =
      map (\<lambda>c. ?f (?f (?f (?f c)))) (cubelets st)"
    by (simp add: invariant_commit_cubelets(1)[OF i0] invariant_commit_cubelets(1)[OF i1]
        invariant_commit_cubelets(1)[OF i2] invariant_commit_cubelets(1)[OF i3] comp_def)
  have "map (\<lambda>c. ?f (?f (?f (?f c)))) (cubelets st) = cubelets st"
  proof (rule map_idI)
    fix c assume "c \<in> set (cubelets st)"
    then have "intVec (currentPos c)" by (rule invariant_cubelet[OF i0])
    then show "?f (?f (?f (?f c))) = c" by (simp add: turnPos_four)
  qed
  then show "cubelets (commit m (commit m (commit m (commit m st)))) = cubelets st"
    using c4 by simp
  have r4: "cubieRefs (commit m (commit m (commit m (commit m st)))) k =
      map_option (\<lambda>x. ?t (?t (?t (?t x)))) (cubieRefs st k)"
    by (simp add: invariant_commit_cubelets(2)[OF i0] invariant_commit_cubelets(2)[OF i1]
        invariant_commit_cubelets(2)[OF i2] invariant_commit_cubelets(2)[OF i3]
        option.map_comp comp_def)
  show "map_option position (cubieRefs (commit m (commit m (commit m (commit m st)))) k) =
        map_option position (cubieRefs st k)"
  proof (cases "cubieRefs st k")
    case None
    then show ?thesis by (simp add: r4)
  next
    case (Some x)
    then show ?thesis
      using invariant_mesh(2)[OF i0 Some] by (simp add: r4 position_turnMesh turnPos_four)
  qed
qed

lemma commit_then_inverse_restores_positions:
  assumes "reachable st"
  shows "cubelets (commit (inverseMove m) (commit m st)) = cubelets st"
    and "map_option position (cubieRefs (commit (inverseMove m) (commit m st)) k) =
         map_option position (cubieRefs st k)"
proof -
  let ?t = "turnMesh (axis m) (slice m) (direction m)"
  let ?u = "turnMesh (axis m) (slice m) (opposite (direction m))"
  let ?f = "\<lambda>c. c\<lparr>currentPos := turnPos (axis m) (slice m) (direction m) (currentPos c)\<rparr>"
  let ?g = "\<lambda>c. c\<lparr>currentPos := turnPos (axis m) (slice m) (opposite (direction m)) (currentPos c)\<rparr>"
  have i0: "invariant st" using assms by (rule reachable_invariant)
  have i1: "invariant (commit m st)" using i0 by (rule invariant_commit_cubelets(3))
  have c2: "cubelets (commit (inverseMove m) (commit m st)) = map (\<lambda>c. ?g (?f c)) (cubelets st)"
    by (simp add: invariant_commit_cubelets(1)[OF i0] invariant_commit_cubelets(1)[OF i1]
        comp_def inverseMove_def)
  have "map (\<lambda>c. ?g (?f c)) (cubelets st) = cubelets st"
  proof (rule map_idI)
    fix c assume "c \<in> set (cubelets st)"
    then have "intVec (currentPos c)" by (rule invariant_cubelet[OF i0])
    then show "?g (?f c) = c" by (simp add: turnPos_inverse)
  qed
  then show "cubelets (commit (inverseMove m) (commit m st)) = cubelets st"
    using c2 by simp
  have r2: "cubieRefs (commit (inverseMove m) (commit m st)) k =
      map_option (\<lambda>x. ?u (?t x)) (cubieRefs st k)"
    by (simp add: invariant_commit_cubelets(2)[OF i0] invariant_commit_cubelets(2)[OF i1]
        option.map_comp comp_def inverseMove_def)
  show "map_option position (cubieRefs (commit (inverseMove m) (commit m st)) k) =
        map_option position (cubieRefs st k)"
  proof (cases "cubieRefs st k")
    case None
    then show ?thesis by (simp add: r2)
  next
    case (Some x)
    then show ?thesis
      using invariant_mesh(2)[OF i0 Some] by (simp add: r2 position_turnMesh turnPos_inverse)
  qed
qed

theorem lattice_bijection_witness:
  "length (cubelets (fold commit [\<lparr>axis = Xaxis, slice = 1, direction = Plus1\<rparr>,
      \<lparr>axis = Yaxis, slice = 0, direction = Minus1\<rparr>] (initialState\<lparr>gameState := PLAYING\<rparr>))) = 27 \<and>
   distinct (map currentPos (cubelets (fold commit [\<lparr>axis = Xaxis, slice = 1, direction = Plus1\<rparr>,
      \<lparr>axis = Yaxis, slice = 0, direction = Minus1\<rparr>] (initialState\<lparr>gameState := PLAYING\<rparr>))))"
  using lattice_bijection[of "[\<lparr>axis = Xaxis, slice = 1, direction = Plus1\<rparr>,
      \<lparr>axis = Yaxis, slice = 0, direction = Minus1\<rparr>]" PLAYING]
  by blast

section \<open>The dead zone of a drag\<close>

lemma vlength_less_iff: "0 \<le> r \<Longrightarrow> (vlength v < r) = (vdot v v < r * r)"
proof -
  assume r: "0 \<le> r"
  obtain x y z where v: "v = (x, y, z)" by (cases v)
  have "sqrt (x * x + y * y + z * z) < r \<longleftrightarrow> sqrt (x * x + y * y + z * z) < sqrt (r * r)"
    using r by simp
  also have "\<dots> \<longleftrightarrow> x * x + y * y + z * z < r * r"
    by (rule real_sqrt_less_iff)
  finally show ?thesis by (simp add: v)
qed

text \<open>
  Claim C8. A drag update whose drag vector (current point minus press point) is
  shorter than 0.25 resolves no move: \<open>handlePointerMove\<close> starts no turn and returns
  the state it was given, cubelets, meshes and the latch of the drag included.
\<close>

theorem drag_below_threshold_resolves_nothing:
  "vlength (vsub (point e) (startPoint (interactRef st))) < 0.25 \<Longrightarrow>
     handlePointerMove st e = (st, None)"
  by (simp add: handlePointerMove_def Let_def)

theorem drag_below_threshold_resolves_nothing_witness:
  "vlength (vsub (1.475, 1.2, 1) (startPoint (interactRef pressedState))) < 0.25 \<and>
   isDragging (interactRef pressedState) \<and> \<not> isAnimating pressedState \<and>
   intersectedCubieId (interactRef pressedState) = 26 \<and>
   handlePointerMove pressedState
     \<lparr> point = (1.475, 1.2, 1), worldNormal = None, objectIndex = 26 \<rparr> = (pressedState, None)"
proof -
  have sp: "interactRef pressedState =
      \<lparr> startFaceNormal = (1, 0, 0), startPoint = (1.475, 1, 1),
        intersectedCubieId = 26, isDragging = True \<rparr>"
      "\<not> isAnimating pressedState"
    by (simp_all add: pressedState_def handlePointerDown_def initialState_def)
  have h: "vlength (vsub (point \<lparr> point = (1.475, 1.2, 1), worldNormal = None, objectIndex = 26 \<rparr>)
      (startPoint (interactRef pressedState))) < 0.25"
    by (subst vlength_less_iff) (simp_all add: sp)
  show ?thesis
    using h sp drag_below_threshold_resolves_nothing[OF h] by simp
qed

section \<open>The solved check against its specification\<close>

lemma applyQuaternion_column:
  "applyQuaternion (0, 1, 0) q = column q 1"
  "applyQuaternion (0, 0, 1) q = column q 2"
  by (rule Matrix3_cases[of q], simp add: applyQuaternion_def column_def)+

lemma passes_iff:
  "passes refs c \<longleftrightarrow>
     (\<forall>ref. refs (idn c) = Some ref \<longrightarrow>
        roundVec (currentPos c) = initialPos c \<and>
        withinEpsilon (column (quaternion ref) 1) (0, 1, 0) \<and>
        withinEpsilon (column (quaternion ref) 2) (0, 0, 1))"
proof (cases "refs (idn c)")
  case None
  then show ?thesis by (simp add: passes_def)
next
  case (Some ref)
  obtain x y z where cp: "currentPos c = (x, y, z)" by (cases "currentPos c")
  obtain a b d where ip: "initialPos c = (a, b, d)" by (cases "initialPos c")
  obtain q11 q12 q13 q21 q22 q23 q31 q32 q33
    where q: "quaternion ref = ((q11, q12, q13), (q21, q22, q23), (q31, q32, q33))"
    by (rule Matrix3_cases)
  show ?thesis
    by (auto simp: passes_def Some cp ip applyQuaternion_def column_def q withinEpsilon_def)
qed

text \<open>
  The loop ends with \<open>solved = true\<close> exactly when there are 27 cubelets to read and
  each of them gets through its iteration.
\<close>

lemma solvedLoop_true_iff:
  "solvedLoop cs refs i = Some True \<longleftrightarrow>
     27 \<le> i \<or> (27 \<le> length cs \<and> (\<forall>j. i \<le> j \<and> j < 27 \<longrightarrow> passes refs (cs ! j)))"
proof (induction cs refs i rule: solvedLoop.induct)
  case (1 cs refs i)
  show ?case
  proof (cases "27 \<le> i")
    case True
    then show ?thesis by (subst solvedLoop.simps) simp
  next
    case n27: False
    show ?thesis
    proof (cases "length cs \<le> i")
      case True
      then show ?thesis using n27 by (subst solvedLoop.simps) simp
    next
      case False
      then have i: "\<not> 27 \<le> i" "\<not> length cs \<le> i" using n27 by simp_all
      have split: "\<And>P. (\<forall>j. i \<le> j \<and> j < 27 \<longrightarrow> P j) \<longleftrightarrow>
          P i \<and> (\<forall>j. i + 1 \<le> j \<and> j < 27 \<longrightarrow> P j)"
        using n27 by (metis Suc_eq_plus1 Suc_leI le_eq_less_or_eq not_le not_less_eq_eq)
      have nxt: "(27 \<le> i + 1 \<or>
            (27 \<le> length cs \<and> (\<forall>j. i + 1 \<le> j \<and> j < 27 \<longrightarrow> passes refs (cs ! j)))) \<longleftrightarrow>
          (27 \<le> length cs \<and> (\<forall>j. i + 1 \<le> j \<and> j < 27 \<longrightarrow> passes refs (cs ! j)))"
        using i by auto
      show ?thesis
      proof (cases "refs (idn (cs ! i))")
        case None
        have ih: "solvedLoop cs refs (i + 1) = Some True \<longleftrightarrow>
            (27 \<le> length cs \<and> (\<forall>j. i + 1 \<le> j \<and> j < 27 \<longrightarrow> passes refs (cs ! j)))"
          using "1.IH"(1)[OF i refl None] nxt by simp
        have "passes refs (cs ! i)" using None by (simp add: passes_def)
        then show ?thesis
          using i None ih by (subst solvedLoop.simps, subst split) (simp add: Let_def)
      next
        case (Some ref)
        show ?thesis
        proof (cases "passes refs (cs ! i)")
          case True
          then have c: "\<not> (roundn (vnth (currentPos (cs ! i)) 0) \<noteq> vnth (initialPos (cs ! i)) 0 \<or>
                  roundn (vnth (currentPos (cs ! i)) 1) \<noteq> vnth (initialPos (cs ! i)) 1 \<or>
                  roundn (vnth (currentPos (cs ! i)) 2) \<noteq> vnth (initialPos (cs ! i)) 2)"
              "\<not> \<bar>vnth (applyQuaternion (0, 1, 0) (quaternion ref)) 1 - 1\<bar> > 0.1"
              "\<not> \<bar>vnth (applyQuaternion (0, 0, 1) (quaternion ref)) 2 - 1\<bar> > 0.1"
            using Some by (simp_all add: passes_def)
          have ih: "solvedLoop cs refs (i + 1) = Some True \<longleftrightarrow>
              (27 \<le> length cs \<and> (\<forall>j. i + 1 \<le> j \<and> j < 27 \<longrightarrow> passes refs (cs ! j)))"
            using "1.IH"(2)[OF i refl Some c] nxt by simp
          show ?thesis
            using i Some True c ih by (subst solvedLoop.simps, subst split) (simp add: Let_def)
        next
          case False
          then show ?thesis
            using i Some by (subst solvedLoop.simps, subst split) (auto simp add: Let_def passes_def)
        qed
      qed
    qed
  qed
qed

lemma checkedSolved_iff:
  "checkedSolved cs refs \<longleftrightarrow>
     27 \<le> length cs \<and> (\<forall>j. 0 \<le> j \<and> j < 27 \<longrightarrow> passes refs (cs ! j))"
proof -
  have e: "checkedSolved cs refs \<longleftrightarrow> 27 \<le> length cs \<and> (\<forall>c \<in> set (take 27 cs). passes refs c)"
    unfolding checkedSolved_def passes_iff ..
  show ?thesis
  proof (cases "27 \<le> length cs")
    case True
    then show ?thesis unfolding e by (simp add: all_set_conv_all_nth)
  next
    case False
    then show ?thesis unfolding e by simp
  qed
qed

lemma solvedLoop_checkedSolved:
  "(solvedLoop cs refs 0 = Some True) = checkedSolved cs refs"
  by (simp add: solvedLoop_true_iff checkedSolved_iff)

lemma roundn_Ints: "x \<in> \<int> \<Longrightarrow> roundn x = x"
  by (auto simp: roundn_def elim: Ints_cases)

lemma roundVec_intVec: "intVec v \<Longrightarrow> roundVec v = v"
  by (cases v) (simp add: intVec_def roundn_Ints)

lemma reachable_solved_check:
  assumes "reachable st"
  shows "length (cubelets st) = 27"
    and "\<forall>c \<in> set (cubelets st). cubieRefs st (idn c) \<noteq> None \<and> intVec (currentPos c)"
proof -
  have i: "invariant st" using assms by (rule reachable_invariant)
  then show "length (cubelets st) = 27" by (simp add: invariant_def)
  have wf: "wellFormed st" using i by (simp add: invariant_def)
  show "\<forall>c \<in> set (cubelets st). cubieRefs st (idn c) \<noteq> None \<and> intVec (currentPos c)"
  proof
    fix c assume c: "c \<in> set (cubelets st)"
    have "mountedAt st c" using wf c by (simp add: wellFormed_def list_all_iff)
    then show "cubieRefs st (idn c) \<noteq> None \<and> intVec (currentPos c)"
      using invariant_cubelet[OF i c] by (auto simp: mountedAt_def split: option.splits)
  qed
qed

text \<open>
  In a reachable state there are 27 cubelets, each with its mesh and an integer
  logical position, so the check decides the solved configuration as specified.
\<close>

lemma reachable_checkedSolved:
  assumes "reachable st"
  shows "checkedSolved (cubelets st) (cubieRefs st) = solvedSpec (cubelets st) (cubieRefs st)"
proof -
  note h = reachable_solved_check[OF assms]
  have t: "take 27 (cubelets st) = cubelets st" using h(1) by simp
  have "\<And>c. c \<in> set (cubelets st) \<Longrightarrow>
      (\<forall>ref. cubieRefs st (idn c) = Some ref \<longrightarrow>
         roundVec (currentPos c) = initialPos c \<and>
         withinEpsilon (column (quaternion ref) 1) (0, 1, 0) \<and>
         withinEpsilon (column (quaternion ref) 2) (0, 0, 1)) \<longleftrightarrow>
      (currentPos c = initialPos c \<and>
       (case cubieRefs st (idn c) of
          None \<Rightarrow> False
        | Some ref \<Rightarrow>
            withinEpsilon (column (quaternion ref) 1) (0, 1, 0) \<and>
            withinEpsilon (column (quaternion ref) 2) (0, 0, 1)))"
    using h(2) by (auto simp: roundVec_intVec)
  then show ?thesis
    unfolding checkedSolved_def solvedSpec_def t using h(1) by simp
qed

lemma solvedSpec_initialState: "solvedSpec (cubelets initialState) (cubieRefs initialState)"
  unfolding solvedSpec_def
proof
  fix c assume "c \<in> set (cubelets initialState)"
  then have c: "c \<in> set initialCubelets" by (simp add: initialState_def)
  have d: "distinct (map idn initialCubelets)"
    by (simp add: initialCubelets_fields)
  show "currentPos c = initialPos c \<and>
        (case cubieRefs initialState (idn c) of
           None \<Rightarrow> False
         | Some ref \<Rightarrow>
             withinEpsilon (column (quaternion ref) 1) (0, 1, 0) \<and>
             withinEpsilon (column (quaternion ref) 2) (0, 0, 1))"
    by (simp add: initialState_def map_of_mountCubie[OF d c] initialPos_initialCubelets[OF c]
        withinEpsilon_def column_def identity3_def)
qed

text \<open>
  The helper \<^verbatim>\<open>isSolved\<close> of constants.ts decides something else, on other data: every
  Euler angle a multiple of a full turn after rounding to quarter turns, and the
  rounded positions equal. It reads no mesh and no game state.
\<close>

lemma jsRem_zero_iff: "jsRem a 4 = 0 \<longleftrightarrow> 4 dvd a"
  by (auto simp: jsRem_def sgn_if dvd_eq_mod_eq_0 zmod_zminus1_eq_if split: if_splits)

lemma isSolved_iff:
  "isSolved cs \<longleftrightarrow>
     (\<forall>c \<in> set cs.
        4 dvd round (vnth (data_rotation c) 0 / (pi / 2)) \<and>
        4 dvd round (vnth (data_rotation c) 1 / (pi / 2)) \<and>
        4 dvd round (vnth (data_rotation c) 2 / (pi / 2)) \<and>
        round (vnth (data_currentPos c) 0) = round (vnth (data_initialPos c) 0) \<and>
        round (vnth (data_currentPos c) 1) = round (vnth (data_initialPos c) 1) \<and>
        round (vnth (data_currentPos c) 2) = round (vnth (data_initialPos c) 2))"
  unfolding isSolved_def list_all_iff Let_def jsRem_zero_iff by auto


text \<open>
  Claim C6 as stated fails: the check signals nothing when the game state its closure
  holds is not PLAYING, however the cubelets stand. In the fresh cube, which is idle,
  every cubelet is at its initial position with the identity orientation, and the
  check of that render does not call \<open>onSolve\<close>.
\<close>

theorem idle_solved_cube_counterexample:
  "solvedSpec (cubelets initialState) (cubieRefs initialState) \<and>
   gameState initialState = IDLE \<and>
   onSolveCalls (checkSolved (gameState initialState) initialState) = onSolveCalls initialState"
proof -
  have g: "gameState initialState = IDLE" by (simp add: initialState_def)
  show ?thesis
    using solvedSpec_initialState g by (simp add: checkSolved_def)
qed

text \<open>
  Claim C6, amended. The solved check signals solved, by one call of \<open>onSolve\<close>, if and
  only if the game state its closure holds is PLAYING, the first 27 cubelets are there
  and each of them that has a mesh has (a) its rounded current position equal to its
  initial position and (b) the images of "up" and of "front" under its orientation
  within the epsilon of "up" and of "front"; otherwise it signals nothing. In every
  state reachable from the fresh cube this is: PLAYING, and every cubelet has (a) its
  current position equal to its initial position and (b).
\<close>

theorem solved_check_reports:
  "onSolveCalls (checkSolved g st) =
     (if g = PLAYING \<and> checkedSolved (cubelets st) (cubieRefs st)
      then onSolveCalls st + 1 else onSolveCalls st) \<and>
   (reachable st \<longrightarrow>
      checkedSolved (cubelets st) (cubieRefs st) = solvedSpec (cubelets st) (cubieRefs st))"
  by (simp add: checkSolved_def onSolve_def handleSolve_def solvedLoop_checkedSolved
      reachable_checkedSolved)

theorem solved_check_reports_witness:
  "reachable initialState \<and>
   solvedSpec (cubelets initialState) (cubieRefs initialState) \<and>
   onSolveCalls (checkSolved PLAYING initialState) = 1 \<and>
   onSolveCalls (checkSolved IDLE initialState) = 0"
proof -
  have z: "onSolveCalls initialState = 0" by (simp add: initialState_def)
  show ?thesis
    using solved_check_reports[of PLAYING initialState] solved_check_reports[of IDLE initialState]
      reachable.fresh solvedSpec_initialState z
    by simp
qed

section \<open>The solved check and the game state\<close>













lemma initialCubelets_26: "initialCubelets ! 26 = makeCubelet (26, (1, 1, 1))"
  by (simp add: initialCubelets_def initialPositions_def enumerate_eq_zip upt_rec)
















section \<open>Gestures on opposite faces\<close>

lemma snapNormal_unitAxes: "n \<noteq> (0, 0, 0) \<Longrightarrow> snapNormal n \<in> set unitAxes"
proof -
  assume n: "n \<noteq> (0, 0, 0)"
  obtain x y z where ne: "n = (x, y, z)" by (cases n)
  define M where "M = max (max \<bar>x\<bar> \<bar>y\<bar>) \<bar>z\<bar>"
  have s: "\<And>a::real. a \<noteq> 0 \<Longrightarrow> (sgn a, 0, 0) \<in> set unitAxes \<and> (0, sgn a, 0) \<in> set unitAxes
      \<and> (0, 0, sgn a) \<in> set unitAxes"
    by (simp add: sgn_if unitAxes_def)
  have m: "0 < M"
    using n ne unfolding M_def by (cases "x = 0"; cases "y = 0"; cases "z = 0"; simp)
  have one: "\<bar>x\<bar> = M \<or> \<bar>y\<bar> = M \<or> \<bar>z\<bar> = M"
    unfolding M_def by (simp add: max_def)
  have sn: "snapNormal n = (if \<bar>x\<bar> = M then (sgn x, 0, 0)
      else if \<bar>y\<bar> = M then (0, sgn y, 0) else (0, 0, sgn z))"
    by (simp add: ne M_def Let_def)
  show ?thesis
  proof (cases "\<bar>x\<bar> = M")
    case True
    then have "x \<noteq> 0" using m by auto
    then show ?thesis using True s[of x] by (simp add: sn)
  next
    case False
    show ?thesis
    proof (cases "\<bar>y\<bar> = M")
      case True
      then have "y \<noteq> 0" using m by auto
      then show ?thesis using True False s[of y] by (simp add: sn)
    next
      case nY: False
      then have "\<bar>z\<bar> = M" using one False by blast
      then have "z \<noteq> 0" using m by auto
      then show ?thesis using nY False s[of z] by (simp add: sn)
    qed
  qed
qed

text \<open>
  Claim C7, amended. For a snapped face normal \<open>n\<close> (one of the six signed unit
  vectors) and a drag vector \<open>d\<close> that is not parallel to \<open>n\<close>, the gesture resolved
  with \<open>-n\<close> has the same rotation axis and slice and the opposite direction.
\<close>

theorem opposite_faces_turn_oppositely:
  assumes "n \<in> set unitAxes" and "cross n d \<noteq> (0, 0, 0)"
  shows "axis (resolveMove (vneg n) p d) = axis (resolveMove n p d) \<and>
         slice (resolveMove (vneg n) p d) = slice (resolveMove n p d) \<and>
         direction (resolveMove (vneg n) p d) = opposite (direction (resolveMove n p d))"
proof -
  obtain mx my mz where d: "d = (mx, my, mz)" by (cases d)
  have pos: "\<And>a::real. a \<noteq> 0 \<Longrightarrow> (0 < a) \<noteq> (a < 0)" by auto
  consider "n = (1, 0, 0)" | "n = (- 1, 0, 0)" | "n = (0, 1, 0)" | "n = (0, - 1, 0)"
    | "n = (0, 0, 1)" | "n = (0, 0, - 1)"
    using assms(1) by (auto simp: unitAxes_def)
  then show ?thesis
  proof cases
    case 1
    then show ?thesis using assms(2) by (auto simp: d resolveMove_def Let_def)
  next
    case 2
    then show ?thesis using assms(2) by (auto simp: d resolveMove_def Let_def)
  next
    case 3
    then show ?thesis using assms(2) by (auto simp: d resolveMove_def Let_def)
  next
    case 4
    then show ?thesis using assms(2) by (auto simp: d resolveMove_def Let_def)
  next
    case 5
    then show ?thesis using assms(2) by (auto simp: d resolveMove_def Let_def)
  next
    case 6
    then show ?thesis using assms(2) by (auto simp: d resolveMove_def Let_def)
  qed
qed

theorem opposite_faces_turn_oppositely_witness:
  "(1, 0, 0) \<in> set unitAxes \<and> cross (1, 0, 0) (0, 0.5, 0.1) \<noteq> (0, 0, 0) \<and>
   resolveMove (1, 0, 0) (1, 1, 1) (0, 0.5, 0.1) = \<lparr>axis = Zaxis, slice = 1, direction = Minus1\<rparr> \<and>
   resolveMove (vneg (1, 0, 0)) (1, 1, 1) (0, 0.5, 0.1) = \<lparr>axis = Zaxis, slice = 1, direction = Plus1\<rparr>"
proof -
  have a: "(1, 0, 0) \<in> set unitAxes" by (simp add: unitAxes_def)
  have b: "cross (1, 0, 0) (0, 0.5, 0.1) \<noteq> (0, 0, 0)" by simp
  have c: "resolveMove (1, 0, 0) (1, 1, 1) (0, 0.5, 0.1) = \<lparr>axis = Zaxis, slice = 1, direction = Minus1\<rparr>"
    by (simp add: resolveMove_def)
  show ?thesis
    using a b c opposite_faces_turn_oppositely[OF a b, of "(1, 1, 1)"]
    by (simp add: Move.equality)
qed

text \<open>
  Claim C7 as stated fails for a drag along the normal, longer than the threshold:
  both tangential components are zero, every test \<open>component * normal > 0\<close> is
  false for \<open>n\<close> and for \<open>-n\<close>, and both faces get the same direction.
\<close>

theorem parallel_drag_counterexample:
  "(1, 0, 0) \<in> set unitAxes \<and> \<not> vlength (1, 0, 0) < 0.25 \<and>
   axis (resolveMove (vneg (1, 0, 0)) (1, 1, 1) (1, 0, 0)) = axis (resolveMove (1, 0, 0) (1, 1, 1) (1, 0, 0)) \<and>
   direction (resolveMove (vneg (1, 0, 0)) (1, 1, 1) (1, 0, 0)) =
     direction (resolveMove (1, 0, 0) (1, 1, 1) (1, 0, 0))"
  by (simp add: unitAxes_def resolveMove_def)

section \<open>The busy flag\<close>

lemma cubieRefs_initialState_26:
  "cubieRefs initialState 26 = Some \<lparr> position = (1, 1, 1), quaternion = identity3, parent = GroupP \<rparr>"
proof -
  have d: "distinct (map idn initialCubelets)"
    by (simp add: initialCubelets_fields)
  have c: "initialCubelets ! 26 \<in> set initialCubelets"
    by (rule nth_mem) (simp add: initialCubelets_fields)
  show ?thesis
    using map_of_mountCubie[OF d c] by (simp add: initialState_def initialCubelets_26)
qed

lemma pressedState_eq:
  "pressedState = initialState\<lparr>gameState := PLAYING,
     interactRef := \<lparr> startFaceNormal = (1, 0, 0), startPoint = (1.475, 1, 1),
                      intersectedCubieId = 26, isDragging = True \<rparr>\<rparr>"
  by (simp add: pressedState_def handlePointerDown_def initialState_def)

lemma inFlightState_eq:
  "inFlightState =
     fold attachToPivot (activeCubies initialCubelets Zaxis 1)
       (initialState\<lparr>gameState := PLAYING,
          interactRef := \<lparr> startFaceNormal = (1, 0, 0), startPoint = (1.475, 1, 1),
                           intersectedCubieId = 26, isDragging = False \<rparr>,
          isAnimating := True, pivotRef := Some (0, 0, 0)\<rparr>)"
proof -
  have far: "\<not> vlength (vsub (1.475, 1.5, 1) (1.475, 1, 1)) < 0.25"
    by (subst vlength_less_iff) simp_all
  show ?thesis
    unfolding inFlightState_def pressedState_eq
    using far
    by (simp add: handlePointerMove_def Let_def initialState_def initialCubelets_fields
        initialCubelets_26 resolveMove_def rotateSlice_begin_def del: vlength.simps)
qed

lemma inFlightState_fields:
  "isAnimating inFlightState" "pivotRef inFlightState \<noteq> None" "groupRef inFlightState"
  "cubelets inFlightState = initialCubelets"
  by (simp_all add: inFlightState_eq fold_attachToPivot_frame initialState_def)

lemma inFlightState_26:
  "\<exists>m. cubieRefs inFlightState 26 = Some m \<and> position m = (1, 1, 1)"
  using cubieRefs_initialState_26
  by (simp add: inFlightState_eq fold_attachToPivot_refs initialState_def)

text \<open>
  Claim C4 as stated fails: \<open>rotateSlice\<close>, which every scramble step calls directly,
  does not look at \<open>isAnimating\<close>. Called while the turn of \<open>inFlightState\<close> is in
  flight, for the same axis, it moves cubelet 26.
\<close>

theorem rotateSlice_ignores_busy_counterexample:
  "isAnimating inFlightState \<and>
   currentPos (cubelets inFlightState ! 26) = (1, 1, 1) \<and>
   currentPos (cubelets (rotateSlice inFlightState Zaxis 1 Plus1) ! 26) = (1, - 1, 1)"
proof -
  obtain m where m: "cubieRefs inFlightState 26 = Some m" "position m = (1, 1, 1)"
    using inFlightState_26 by blast
  have j: "26 < length (cubelets inFlightState)"
    by (simp add: inFlightState_fields initialCubelets_fields)
  have act: "26 \<in> set (activeCubies (cubelets inFlightState) Zaxis 1)"
    by (simp add: set_activeCubies inFlightState_fields initialCubelets_fields initialCubelets_26)
  show ?thesis
    using m act
    by (simp add: rotateSlice_def rotateSlice_nth[OF inFlightState_fields(2,3) j]
        inFlightState_fields initialCubelets_26 turned_eq quarterTurn_simps roundn_def round_minus_one)
qed

text \<open>
  Claim C4, amended. While \<open>isAnimating\<close> is set, a pointer-move and a pointer-down
  are rejected at the top of their handlers and the scramble effect starts no scramble:
  each returns the state it was given, so no cubelet's position or orientation changes.
\<close>

theorem busy_rejects_gestures_and_scramble_start:
  "isAnimating st \<Longrightarrow>
     handlePointerMove st e = (st, None) \<and> handlePointerDown st e = st \<and>
     scrambleEffect gs rnd st = st"
  by (simp add: handlePointerMove_def handlePointerDown_def scrambleEffect_def Let_def)

theorem busy_rejects_gestures_and_scramble_start_witness:
  "isAnimating inFlightState \<and>
   handlePointerMove inFlightState \<lparr> point = (1.475, 1.5, 1), worldNormal = None, objectIndex = 26 \<rparr>
     = (inFlightState, None) \<and>
   scrambleEffect (\<lambda>i. IDLE) (\<lambda>k. 0) inFlightState = inFlightState"
  using inFlightState_fields(1)
    busy_rejects_gestures_and_scramble_start[OF inFlightState_fields(1),
      of "\<lparr> point = (1.475, 1.5, 1), worldNormal = None, objectIndex = 26 \<rparr>"
        "\<lambda>i. IDLE" "\<lambda>k. 0"]
  by simp

section \<open>What a commit rounds\<close>

text \<open>
  In every state with pivot and group mounted, a commit gives each cubelet of the
  slice that has a mesh an integer logical position, and the mesh the same position.
  The quaternion of the mesh is what the reattachment leaves; the component writes
  nothing to it.
\<close>

lemma commit_rounds_positions:
  assumes "pivotRef st \<noteq> None" "groupRef st" "j < length (cubelets st)"
    and "round (vnth (currentPos (cubelets st ! j)) (axisIndex ax)) = sl"
    and "cubieRefs st (idn (cubelets st ! j)) = Some m"
  shows "intVec (currentPos (cubelets (rotateSlice st ax sl dir) ! j))"
    and "map_option position (cubieRefs (rotateSlice st ax sl dir) (idn (cubelets st ! j))) =
         Some (currentPos (cubelets (rotateSlice st ax sl dir) ! j))"
proof -
  have act: "j \<in> set (activeCubies (cubelets st) ax sl)"
    using assms(3,4) by (simp add: set_activeCubies)
  have cp: "currentPos (cubelets (rotateSlice st ax sl dir) ! j) =
      roundVec (applyMatrix3 (quarterTurn ax dir) (position m))"
    using assms(5) act
    by (simp add: rotateSlice_def rotateSlice_nth[OF assms(1,2,3)] turned_eq)
  show "intVec (currentPos (cubelets (rotateSlice st ax sl dir) ! j))"
    unfolding cp
    by (cases "applyMatrix3 (quarterTurn ax dir) (position m)") (simp add: intVec_def roundn_def)
  show "map_option position (cubieRefs (rotateSlice st ax sl dir) (idn (cubelets st ! j))) =
        Some (currentPos (cubelets (rotateSlice st ax sl dir) ! j))"
    unfolding cp using assms(5) act
    by (simp add: rotateSlice_def rotateSlice_refs[OF assms(1,2)] turned_eq)
qed

end
